theory Spec2Isabelle
  imports Complex_Main
begin

section \<open>The chunk downloader of jQueryPlugins/chunkatron.js\<close>

text \<open>
  The plugin object of \<^verbatim>\<open>$.fn.chunkatron\<close> is modelled by explicit state passing.
  JavaScript runs every handler to completion, so one step of the model is one whole
  handler run: the constructor, or the callbacks of one finished request.

  What lies outside the source is fixed as follows.
  \<^item> A chunk is an array of identifiers, here natural numbers; \<^verbatim>\<open>currentChunk[0]\<close> of
    an empty chunk is \<^verbatim>\<open>undefined\<close>, which is a key of its own (\<open>None\<close>).
  \<^item> An entry of the chunk list is a chunk, or \<^verbatim>\<open>null\<close> or \<^verbatim>\<open>undefined\<close> (\<open>None\<close>): the
    source does not check the entries, and \<^verbatim>\<open>downloadChunk\<close> tests what it takes off the
    list with \<^verbatim>\<open>== null\<close>.
  \<^item> The two numeric settings are finite numbers, here rationals: the source does not
    check them either, and only compares with them.
  \<^item> A hook setting is \<^verbatim>\<open>null\<close>, a function, or some other value; a hook that is a
    function returns normally and does not touch the plugin object.
  \<^item> jQuery runs \<^verbatim>\<open>success\<close> or \<^verbatim>\<open>error\<close> and then \<^verbatim>\<open>complete\<close>; an exception that
    leaves a handler ends that dispatch and is reported by the event loop.
  \<^item> The diagnostic \<^verbatim>\<open>console.log\<close> lines behind \<^verbatim>\<open>verbose\<close> are left out.
  \<^item> \<^verbatim>\<open>this.chunks\<close> is undefined until \<^verbatim>\<open>start\<close> assigns it; the model begins with the
    empty list, which nothing reads before \<^verbatim>\<open>start\<close>.
\<close>

subsection \<open>Settings\<close>

type_synonym chunk = "nat list"

datatype hook = Null | Function | Other

record settings =
  url :: "string option"
  onChunkComplete :: hook
  settings_chunks :: "chunk option list option"
  chunksUrl :: "string option"
  onComplete :: hook
  onChunkSuccess :: hook
  onChunkError :: hook
  onChunkGiveUp :: hook
  onFinished :: hook
  verbose :: bool
  dataType :: string
  maxDownloadRetries :: rat
  concurrentDownloadsMax :: rat

definition defaultOptions :: settings where
  "defaultOptions =
     \<lparr>url = None, onChunkComplete = Null, settings_chunks = None, chunksUrl = None,
      onComplete = Null, onChunkSuccess = Null, onChunkError = Null, onChunkGiveUp = Null,
      onFinished = Null,
      verbose = False, dataType = ''json'', maxDownloadRetries = 3,
      concurrentDownloadsMax = 10\<rparr>"

datatype error =
    MissingSetting string
  | MissingChunkSource
  | CallbackNotFunction
  | ChunksDownloadFailed string

text \<open>
  \<^verbatim>\<open>verifySettings\<close> walks the settings in the order of \<^verbatim>\<open>defaultOptions\<close>, so of the
  two required options \<^verbatim>\<open>url\<close> is tested first.
\<close>

definition verifySettings :: "settings \<Rightarrow> error + unit" where
  "verifySettings cfg =
     (if url cfg = None then Inl (MissingSetting ''url'')
      else if onChunkComplete cfg = Null then Inl (MissingSetting ''onChunkComplete'')
      else if settings_chunks cfg = None \<and> chunksUrl cfg = None then Inl MissingChunkSource
      else Inr ())"

subsection \<open>The plugin object and its surroundings\<close>

text \<open>The response payload is opaque to the plugin except for its truthiness.\<close>

datatype json = JNull | JBool bool | JNum int | JStr string | JArr "json list"

datatype param = ChunkParam chunk | DataParam json | ErrorParam string

fun truthy :: "param \<Rightarrow> bool" where
  "truthy (ChunkParam c) = True"
| "truthy (DataParam JNull) = False"
| "truthy (DataParam (JBool b)) = b"
| "truthy (DataParam (JNum n)) = (n \<noteq> 0)"
| "truthy (DataParam (JStr s)) = (s \<noteq> [])"
| "truthy (DataParam (JArr xs)) = True"
| "truthy (ErrorParam e) = (e \<noteq> [])"

type_synonym key = "nat option"

text \<open>\<^verbatim>\<open>currentChunk[0]\<close>, the index into \<^verbatim>\<open>chunkFailures\<close>.\<close>

definition chunk_key :: "chunk \<Rightarrow> key" where
  "chunk_key c = (case c of [] \<Rightarrow> None | x # _ \<Rightarrow> Some x)"

text \<open>The fields of \<^verbatim>\<open>this\<close> that change while the plugin runs.\<close>

record sched =
  chunks :: "chunk option list"
  concurrentDownloads :: int
  chunkFailures :: "key \<rightharpoonup> nat"

datatype request = PostChunk chunk | GetChunks string

datatype hook_name = OnChunkSuccess | OnChunkError | OnChunkComplete | OnChunkGiveUp | OnFinished

text \<open>
  What can be observed from outside: a request handed to \<^verbatim>\<open>$.ajax\<close>, a call of a hook
  (with its argument, if one is passed, and the plugin's fields at the moment of the
  call), and an exception that reached the event loop.
\<close>

datatype event = Ajax request | Hook hook_name "param option" sched | Uncaught error

record world =
  self :: sched
  pending :: "request list"
  trace :: "event list"

definition initial :: world where
  "initial = \<lparr>self = \<lparr>chunks = [], concurrentDownloads = 0, chunkFailures = Map.empty\<rparr>,
              pending = [], trace = []\<rparr>"

definition ajax :: "request \<Rightarrow> world \<Rightarrow> world" where
  "ajax r w = w\<lparr>pending := pending w @ [r], trace := trace w @ [Ajax r]\<rparr>"

text \<open>
  \<^verbatim>\<open>callback\<close>: a function is called, with \<^verbatim>\<open>params\<close> only when that is truthy;
  \<^verbatim>\<open>null\<close> is skipped; anything else throws.
\<close>

fun passed :: "param option \<Rightarrow> param option" where
  "passed None = None"
| "passed (Some p) = (if truthy p then Some p else None)"

definition callback :: "hook \<Rightarrow> hook_name \<Rightarrow> param option \<Rightarrow> world \<Rightarrow> error option \<times> world" where
  "callback h n params w =
     (case h of
        Function \<Rightarrow> (None, w\<lparr>trace := trace w @ [Hook n (passed params) (self w)]\<rparr>)
      | Null \<Rightarrow> (None, w)
      | Other \<Rightarrow> (Some CallbackNotFunction, w))"

text \<open>
  \<^verbatim>\<open>Array.prototype.shift\<close>: the first entry and the rest, or \<^verbatim>\<open>undefined\<close> and the
  empty list.
\<close>

fun shift :: "'a option list \<Rightarrow> 'a option \<times> 'a option list" where
  "shift [] = (None, [])"
| "shift (x # xs) = (x, xs)"

text \<open>\<^verbatim>\<open>this.chunkFailures[k] > max\<close> is false while the entry is \<^verbatim>\<open>undefined\<close>.\<close>

definition exceeds :: "nat option \<Rightarrow> rat \<Rightarrow> bool" where
  "exceeds f m = (case f of None \<Rightarrow> False | Some n \<Rightarrow> of_nat n > m)"

function downloadChunk :: "settings \<Rightarrow> world \<Rightarrow> error option \<times> world" where
  "downloadChunk cfg w =
     (if of_int (concurrentDownloads (self w)) \<ge> concurrentDownloadsMax cfg then (None, w)
      else case shift (chunks (self w)) of (currentChunk, rest) \<Rightarrow>
        let w1 = w\<lparr>self := (self w)\<lparr>chunks := rest\<rparr>\<rparr> in
        (case currentChunk of
           None \<Rightarrow> callback (onFinished cfg) OnFinished None w1
         | Some c \<Rightarrow>
             if exceeds (chunkFailures (self w1) (chunk_key c)) (maxDownloadRetries cfg)
             then
               (case callback (onChunkGiveUp cfg) OnChunkGiveUp (Some (ChunkParam c)) w1 of
                  (Some e, w2) \<Rightarrow> (Some e, w2)
                | (None, w2) \<Rightarrow> downloadChunk cfg w2)
             else
               (None, ajax (PostChunk c)
                  (w1\<lparr>self := (self w1)
                     \<lparr>concurrentDownloads := concurrentDownloads (self w1) + 1\<rparr>\<rparr>))))"
  by pat_completeness auto
termination
  apply (relation "measure (\<lambda>(cfg, w). length (chunks (self w)))")
   apply simp
  apply (case_tac [!] "chunks (self w)")
    apply (auto simp: callback_def split: hook.splits)
  done

subsection \<open>The handlers of a chunk request\<close>

text \<open>
  The three callbacks that \<^verbatim>\<open>downloadChunk\<close> hands to \<^verbatim>\<open>$.ajax\<close> under the keys
  \<^verbatim>\<open>success\<close>, \<^verbatim>\<open>error\<close> and \<^verbatim>\<open>complete\<close>. The chunk of the request is the \<^verbatim>\<open>currentChunk\<close>
  of their closure.
\<close>

definition successHandler :: "settings \<Rightarrow> json \<Rightarrow> world \<Rightarrow> error option \<times> world" where
  "successHandler cfg data w =
     callback (onChunkSuccess cfg) OnChunkSuccess (Some (DataParam data)) w"

definition errorHandler :: "settings \<Rightarrow> chunk \<Rightarrow> string \<Rightarrow> world \<Rightarrow> error option \<times> world" where
  "errorHandler cfg currentChunk err w =
     (let chunkIdentifier = chunk_key currentChunk;
          w1 = w\<lparr>self := (self w)\<lparr>chunkFailures := (chunkFailures (self w))
                  (chunkIdentifier \<mapsto>
                     (case chunkFailures (self w) chunkIdentifier of
                        None \<Rightarrow> 1 | Some n \<Rightarrow> n + 1))\<rparr>\<rparr>;
          w2 = w1\<lparr>self := (self w1)\<lparr>chunks := chunks (self w1) @ [Some currentChunk]\<rparr>\<rparr>
      in callback (onChunkError cfg) OnChunkError (Some (ErrorParam err)) w2)"

definition completeHandler :: "settings \<Rightarrow> world \<Rightarrow> error option \<times> world" where
  "completeHandler cfg w =
     (let w1 = w\<lparr>self := (self w)\<lparr>concurrentDownloads := concurrentDownloads (self w) - 1\<rparr>\<rparr>
      in case callback (onChunkComplete cfg) OnChunkComplete None w1 of
           (Some e, w2) \<Rightarrow> (Some e, w2)
         | (None, w2) \<Rightarrow> downloadChunk cfg w2)"

subsection \<open>Start-up\<close>

text \<open>
  The \<^verbatim>\<open>for\<close> loop of \<^verbatim>\<open>start\<close>, from the value \<open>i\<close> of its counter on; a call that throws
  ends it.
\<close>

function start_loop :: "settings \<Rightarrow> nat \<Rightarrow> world \<Rightarrow> error option \<times> world" where
  "start_loop cfg i w =
     (if of_nat i < concurrentDownloadsMax cfg then
        (case downloadChunk cfg w of
           (Some e, w') \<Rightarrow> (Some e, w')
         | (None, w') \<Rightarrow> start_loop cfg (Suc i) w')
      else (None, w))"
  by pat_completeness auto
termination
  apply (relation "measure (\<lambda>(cfg, i, w). nat \<lceil>concurrentDownloadsMax cfg\<rceil> - i)")
   apply simp
  apply (simp add: diff_less_mono2 zless_nat_eq_int_zless less_ceiling_iff)
  done

text \<open>
  \<^verbatim>\<open>start\<close> reads \<^verbatim>\<open>this.settings.chunks\<close>, which is either the caller's list or the
  list the chunk-list handler has just stored there; the model hands it over as an
  argument.
\<close>

definition start :: "settings \<Rightarrow> chunk option list \<Rightarrow> world \<Rightarrow> error option \<times> world" where
  "start cfg cs w = start_loop cfg 0 (w\<lparr>self := (self w)\<lparr>chunks := cs\<rparr>\<rparr>)"

text \<open>
  The constructor. Its result is the exception it throws, if any, and the world it leaves
  behind. The last branch cannot be reached: \<^verbatim>\<open>verifySettings\<close> has thrown before.
\<close>

definition chunkatron :: "settings \<Rightarrow> error option \<times> world" where
  "chunkatron cfg =
     (case verifySettings cfg of
        Inl e \<Rightarrow> (Some e, initial)
      | Inr _ \<Rightarrow>
          (case settings_chunks cfg of
             Some cs \<Rightarrow> start cfg cs initial
           | None \<Rightarrow>
               (case chunksUrl cfg of
                  Some u \<Rightarrow> (None, ajax (GetChunks u) initial)
                | None \<Rightarrow> (Some MissingChunkSource, initial))))"

subsection \<open>The event loop\<close>

definition andThen ::
  "error option \<times> world \<Rightarrow> (world \<Rightarrow> error option \<times> world) \<Rightarrow> error option \<times> world" where
  "andThen r f = (case r of (Some e, w) \<Rightarrow> (Some e, w) | (None, w) \<Rightarrow> f w)"

definition report :: "error option \<times> world \<Rightarrow> world" where
  "report r = (case r of (None, w) \<Rightarrow> w | (Some e, w) \<Rightarrow> w\<lparr>trace := trace w @ [Uncaught e]\<rparr>)"

datatype outcome = Success json | Failure string | Chunks "chunk option list" | NoChunks

text \<open>
  \<open>deliver cfg i out\<close> finishes the \<open>i\<close>-th pending request with the outcome \<open>out\<close>; it is
  \<open>None\<close> when there is no such request or the outcome is not one of that request.
\<close>

definition deliver :: "settings \<Rightarrow> nat \<Rightarrow> outcome \<Rightarrow> world \<Rightarrow> world option" where
  "deliver cfg i out w =
     (if i < length (pending w) then
        let w' = w\<lparr>pending := take i (pending w) @ drop (Suc i) (pending w)\<rparr> in
        (case (pending w ! i, out) of
           (PostChunk c, Success data) \<Rightarrow>
             Some (report (andThen (successHandler cfg data w') (completeHandler cfg)))
         | (PostChunk c, Failure err) \<Rightarrow>
             Some (report (andThen (errorHandler cfg c err w') (completeHandler cfg)))
         | (GetChunks u, Chunks data) \<Rightarrow> Some (report (start cfg data w'))
         | (GetChunks u, NoChunks) \<Rightarrow> Some (report (Some (ChunksDownloadFailed u), w'))
         | _ \<Rightarrow> None)
      else None)"

fun run :: "settings \<Rightarrow> (nat \<times> outcome) list \<Rightarrow> world \<Rightarrow> world option" where
  "run cfg [] w = Some w"
| "run cfg ((i, out) # rest) w =
     (case deliver cfg i out w of None \<Rightarrow> None | Some w' \<Rightarrow> run cfg rest w')"

inductive reachable :: "settings \<Rightarrow> world \<Rightarrow> bool" for cfg :: settings where
  constructed: "reachable cfg (snd (chunkatron cfg))"
| delivered: "reachable cfg w \<Longrightarrow> deliver cfg i out w = Some w' \<Longrightarrow> reachable cfg w'"

subsection \<open>Reading a trace\<close>

text \<open>What happened, without the data: an event less its argument and snapshot.\<close>

datatype entry = Requested request | Called hook_name | Threw error

fun outline :: "event \<Rightarrow> entry" where
  "outline (Ajax r) = Requested r"
| "outline (Hook n p s) = Called n"
| "outline (Uncaught e) = Threw e"

text \<open>The chunks handed to \<^verbatim>\<open>onChunkGiveUp\<close>, in the order of the calls.\<close>

fun given_up :: "event list \<Rightarrow> chunk list" where
  "given_up [] = []"
| "given_up (Hook OnChunkGiveUp (Some (ChunkParam c)) s # tr) = c # given_up tr"
| "given_up (e # tr) = given_up tr"

fun is_call :: "hook_name \<Rightarrow> event \<Rightarrow> bool" where
  "is_call n (Hook m p s) = (m = n)"
| "is_call n _ = False"

definition calls :: "hook_name \<Rightarrow> event list \<Rightarrow> nat" where
  "calls n tr = length (filter (is_call n) tr)"

definition attempts :: "chunk \<Rightarrow> event list \<Rightarrow> nat" where
  "attempts c tr = length (filter (\<lambda>e. e = Ajax (PostChunk c)) tr)"

fun is_post :: "request \<Rightarrow> bool" where
  "is_post (PostChunk c) = True"
| "is_post (GetChunks u) = False"

text \<open>The entries of a chunk list that are chunks.\<close>

fun the_chunks :: "chunk option list \<Rightarrow> chunk list" where
  "the_chunks [] = []"
| "the_chunks (None # xs) = the_chunks xs"
| "the_chunks (Some c # xs) = c # the_chunks xs"

text \<open>The number of chunk requests that have been sent and have not finished.\<close>

definition in_flight :: "world \<Rightarrow> nat" where
  "in_flight w = length (filter is_post (pending w))"

definition within_cap :: "settings \<Rightarrow> sched \<Rightarrow> bool" where
  "within_cap cfg s \<longleftrightarrow>
     0 \<le> concurrentDownloads s \<and> of_int (concurrentDownloads s) \<le> concurrentDownloadsMax cfg"

text \<open>
  The requests that \<^verbatim>\<open>downloadChunk\<close> and the handlers of a chunk request may add are
  chunk requests.
\<close>

fun expected :: "event \<Rightarrow> bool" where
  "expected (Ajax r) = is_post r"
| "expected (Hook n p s) = True"
| "expected (Uncaught e) = True"

definition grows :: "world \<Rightarrow> world \<Rightarrow> bool" where
  "grows w w' \<longleftrightarrow> (\<exists>evs. trace w' = trace w @ evs \<and> list_all expected evs)"


text \<open>
  The counter covers the chunk requests in flight, and \<open>k\<close> more while a handler that has
  not yet decremented it runs; it stays under the cap, now and at every hook call so far.
\<close>

definition counter_ok :: "settings \<Rightarrow> nat \<Rightarrow> world \<Rightarrow> bool" where
  "counter_ok cfg k w \<longleftrightarrow>
     int (in_flight w) + int k \<le> concurrentDownloads (self w) \<and>
     of_int (concurrentDownloads (self w)) \<le> concurrentDownloadsMax cfg \<and>
     (\<forall>n p s. Hook n p s \<in> set (trace w) \<longrightarrow> within_cap cfg s)"

subsection \<open>Configurations used as examples\<close>

definition all_hooks :: settings where
  "all_hooks = defaultOptions
     \<lparr>url := Some ''/download'', onChunkComplete := Function, onChunkSuccess := Function,
      onChunkError := Function, onChunkGiveUp := Function, onFinished := Function\<rparr>"

definition three_chunks :: settings where
  "three_chunks = all_hooks
     \<lparr>settings_chunks := Some [Some [1], Some [2], Some [3]], concurrentDownloadsMax := 2\<rparr>"

definition three_started :: world where
  "three_started =
     \<lparr>self = \<lparr>chunks = [Some [3]], concurrentDownloads = 2, chunkFailures = Map.empty\<rparr>,
      pending = [PostChunk [1], PostChunk [2]],
      trace = [Ajax (PostChunk [1]), Ajax (PostChunk [2])]\<rparr>"


definition fractional_cap :: settings where
  "fractional_cap = three_chunks\<lparr>concurrentDownloadsMax := 5 / 2\<rparr>"

definition negative_cap :: settings where
  "negative_cap = three_chunks\<lparr>concurrentDownloadsMax := - 1\<rparr>"

definition both_sources :: settings where
  "both_sources = all_hooks\<lparr>settings_chunks := Some [Some [1]], chunksUrl := Some ''/chunks''\<rparr>"

definition bad_onFinished :: settings where
  "bad_onFinished = both_sources\<lparr>onFinished := Other\<rparr>"

definition one_chunk :: settings where
  "one_chunk = all_hooks\<lparr>settings_chunks := Some [Some [2, 1]], concurrentDownloadsMax := 1\<rparr>"

definition one_chunk_quiet :: settings where
  "one_chunk_quiet = defaultOptions
     \<lparr>url := Some ''/download'', onChunkComplete := Function,
      settings_chunks := Some [Some [2, 1]], concurrentDownloadsMax := 1\<rparr>"

definition always_failing :: settings where
  "always_failing = all_hooks\<lparr>settings_chunks := Some [Some [5]], maxDownloadRetries := 2\<rparr>"

definition five_started :: world where
  "five_started =
     \<lparr>self = \<lparr>chunks = [], concurrentDownloads = 1, chunkFailures = Map.empty\<rparr>,
      pending = [PostChunk [5]],
      trace = Ajax (PostChunk [5]) #
        replicate 9 (Hook OnFinished None
          \<lparr>chunks = [], concurrentDownloads = 1, chunkFailures = Map.empty\<rparr>)\<rparr>"

definition stalled :: settings where
  "stalled = all_hooks
     \<lparr>settings_chunks := Some [Some [5], Some [6]], maxDownloadRetries := 0,
      concurrentDownloadsMax := 1, onChunkGiveUp := Other\<rparr>"

definition pooled :: settings where
  "pooled = all_hooks
     \<lparr>settings_chunks := Some [Some [2, 1], Some [2, 3]], maxDownloadRetries := 1,
      concurrentDownloadsMax := 1\<rparr>"

definition silent :: settings where
  "silent = defaultOptions
     \<lparr>url := Some ''/download'', onChunkComplete := Function,
      settings_chunks := Some [Some [5]], maxDownloadRetries := 0,
      concurrentDownloadsMax := 1\<rparr>"

definition from_url :: settings where
  "from_url = all_hooks\<lparr>chunksUrl := Some ''/chunks''\<rparr>"

section \<open>Properties\<close>

declare downloadChunk.simps [simp del]
declare start_loop.simps [simp del]

subsection \<open>What \<^verbatim>\<open>callback\<close> changes\<close>

lemma callback_self [simp]: "self (snd (callback h n p w)) = self w"
  by (simp add: callback_def split: hook.splits)

lemma callback_pending [simp]: "pending (snd (callback h n p w)) = pending w"
  by (simp add: callback_def split: hook.splits)

lemma callback_error: "fst (callback h n p w) = Some e \<Longrightarrow> e = CallbackNotFunction"
  by (simp add: callback_def split: hook.splits)

lemma callback_returns:
  "callback h n p w = (r, w') \<Longrightarrow> self w' = self w \<and> pending w' = pending w"
  by (auto simp: callback_def split: hook.splits)

subsection \<open>The branches of \<^verbatim>\<open>downloadChunk\<close>\<close>

lemma downloadChunk_blocked:
  "of_int (concurrentDownloads (self w)) \<ge> concurrentDownloadsMax cfg \<Longrightarrow>
     downloadChunk cfg w = (None, w)"
  by (simp add: downloadChunk.simps [of cfg w])

lemma downloadChunk_no_chunk:
  assumes "\<not> of_int (concurrentDownloads (self w)) \<ge> concurrentDownloadsMax cfg"
    and "shift (chunks (self w)) = (None, rest)"
  shows "downloadChunk cfg w =
     callback (onFinished cfg) OnFinished None (w\<lparr>self := (self w)\<lparr>chunks := rest\<rparr>\<rparr>)"
  using assms by (simp add: downloadChunk.simps [of cfg w])

lemma downloadChunk_exhausted:
  assumes "\<not> of_int (concurrentDownloads (self w)) \<ge> concurrentDownloadsMax cfg"
    and "chunks (self w) = Some c # rest"
    and "exceeds (chunkFailures (self w) (chunk_key c)) (maxDownloadRetries cfg)"
  shows "downloadChunk cfg w =
     (case onChunkGiveUp cfg of
        Function \<Rightarrow>
          downloadChunk cfg
            (w\<lparr>self := (self w)\<lparr>chunks := rest\<rparr>,
               trace := trace w @
                 [Hook OnChunkGiveUp (Some (ChunkParam c)) ((self w)\<lparr>chunks := rest\<rparr>)]\<rparr>)
      | Null \<Rightarrow> downloadChunk cfg (w\<lparr>self := (self w)\<lparr>chunks := rest\<rparr>\<rparr>)
      | Other \<Rightarrow> (Some CallbackNotFunction, w\<lparr>self := (self w)\<lparr>chunks := rest\<rparr>\<rparr>))"
  using assms by (simp add: downloadChunk.simps [of cfg w] callback_def split: hook.splits)

lemma downloadChunk_retry:
  assumes "\<not> of_int (concurrentDownloads (self w)) \<ge> concurrentDownloadsMax cfg"
    and "chunks (self w) = Some c # rest"
    and "\<not> exceeds (chunkFailures (self w) (chunk_key c)) (maxDownloadRetries cfg)"
  shows "downloadChunk cfg w =
     (None, ajax (PostChunk c)
        (w\<lparr>self := (self w)\<lparr>chunks := rest,
             concurrentDownloads := concurrentDownloads (self w) + 1\<rparr>\<rparr>))"
  using assms by (simp add: downloadChunk.simps [of cfg w])

text \<open>
  A property of the result of \<^verbatim>\<open>downloadChunk\<close> follows from its six ways to end or to
  call itself again.
\<close>

lemma downloadChunk_result [case_names blocked no_chunk called skipped threw request]:
  fixes P :: "world \<Rightarrow> error option \<times> world \<Rightarrow> bool"
  assumes "\<And>w. of_int (concurrentDownloads (self w)) \<ge> concurrentDownloadsMax cfg \<Longrightarrow>
             P w (None, w)"
    and "\<And>w rest.
           \<not> of_int (concurrentDownloads (self w)) \<ge> concurrentDownloadsMax cfg \<Longrightarrow>
           shift (chunks (self w)) = (None, rest) \<Longrightarrow>
           P w (callback (onFinished cfg) OnFinished None (w\<lparr>self := (self w)\<lparr>chunks := rest\<rparr>\<rparr>))"
    and "\<And>w c rest r.
           \<not> of_int (concurrentDownloads (self w)) \<ge> concurrentDownloadsMax cfg \<Longrightarrow>
           chunks (self w) = Some c # rest \<Longrightarrow>
           exceeds (chunkFailures (self w) (chunk_key c)) (maxDownloadRetries cfg) \<Longrightarrow>
           onChunkGiveUp cfg = Function \<Longrightarrow>
           P (w\<lparr>self := (self w)\<lparr>chunks := rest\<rparr>,
                trace := trace w @
                  [Hook OnChunkGiveUp (Some (ChunkParam c)) ((self w)\<lparr>chunks := rest\<rparr>)]\<rparr>) r \<Longrightarrow>
           P w r"
    and "\<And>w c rest r.
           \<not> of_int (concurrentDownloads (self w)) \<ge> concurrentDownloadsMax cfg \<Longrightarrow>
           chunks (self w) = Some c # rest \<Longrightarrow>
           exceeds (chunkFailures (self w) (chunk_key c)) (maxDownloadRetries cfg) \<Longrightarrow>
           onChunkGiveUp cfg = Null \<Longrightarrow>
           P (w\<lparr>self := (self w)\<lparr>chunks := rest\<rparr>\<rparr>) r \<Longrightarrow>
           P w r"
    and "\<And>w c rest.
           \<not> of_int (concurrentDownloads (self w)) \<ge> concurrentDownloadsMax cfg \<Longrightarrow>
           chunks (self w) = Some c # rest \<Longrightarrow>
           exceeds (chunkFailures (self w) (chunk_key c)) (maxDownloadRetries cfg) \<Longrightarrow>
           onChunkGiveUp cfg = Other \<Longrightarrow>
           P w (Some CallbackNotFunction, w\<lparr>self := (self w)\<lparr>chunks := rest\<rparr>\<rparr>)"
    and "\<And>w c rest.
           \<not> of_int (concurrentDownloads (self w)) \<ge> concurrentDownloadsMax cfg \<Longrightarrow>
           chunks (self w) = Some c # rest \<Longrightarrow>
           \<not> exceeds (chunkFailures (self w) (chunk_key c)) (maxDownloadRetries cfg) \<Longrightarrow>
           P w (None, ajax (PostChunk c)
             (w\<lparr>self := (self w)\<lparr>chunks := rest,
                  concurrentDownloads := concurrentDownloads (self w) + 1\<rparr>\<rparr>))"
  shows "P w (downloadChunk cfg w)"
proof (induction "length (chunks (self w))" arbitrary: w rule: less_induct)
  case less
  show ?case
  proof (cases "of_int (concurrentDownloads (self w)) \<ge> concurrentDownloadsMax cfg")
    case True
    then show ?thesis by (simp add: downloadChunk_blocked assms(1))
  next
    case free: False
    show ?thesis
    proof (cases "chunks (self w)")
      case Nil
      then have "shift (chunks (self w)) = (None, [])" by simp
      from assms(2) [OF free this] downloadChunk_no_chunk [OF free this] show ?thesis by simp
    next
      case (Cons x rest)
      show ?thesis
      proof (cases x)
        case None
        with Cons have "shift (chunks (self w)) = (None, rest)" by simp
        from assms(2) [OF free this] downloadChunk_no_chunk [OF free this] show ?thesis by simp
      next
        case (Some c)
        with Cons have q: "chunks (self w) = Some c # rest" by simp
        show ?thesis
        proof (cases "exceeds (chunkFailures (self w) (chunk_key c)) (maxDownloadRetries cfg)")
          case False
          from assms(6) [OF free q False] downloadChunk_retry [OF free q False]
          show ?thesis by simp
        next
          case True
          note eq = downloadChunk_exhausted [OF free q True]
          show ?thesis
          proof (cases "onChunkGiveUp cfg")
            case Function
            let ?w = "w\<lparr>self := (self w)\<lparr>chunks := rest\<rparr>,
                trace := trace w @
                  [Hook OnChunkGiveUp (Some (ChunkParam c)) ((self w)\<lparr>chunks := rest\<rparr>)]\<rparr>"
            have "P ?w (downloadChunk cfg ?w)" using q by (intro less) simp
            from assms(3) [OF free q True Function this] eq Function show ?thesis by simp
          next
            case Null
            let ?w = "w\<lparr>self := (self w)\<lparr>chunks := rest\<rparr>\<rparr>"
            have "P ?w (downloadChunk cfg ?w)" using q by (intro less) simp
            from assms(4) [OF free q True Null this] eq Null show ?thesis by simp
          next
            case Other
            from assms(5) [OF free q True Other] eq Other show ?thesis by simp
          qed
        qed
      qed
    qed
  qed
qed

lemma start_loop_result [case_names finished threw again]:
  fixes P :: "nat \<Rightarrow> world \<Rightarrow> error option \<times> world \<Rightarrow> bool"
  assumes "\<And>i w. \<not> of_nat i < concurrentDownloadsMax cfg \<Longrightarrow> P i w (None, w)"
    and "\<And>i w e w'. of_nat i < concurrentDownloadsMax cfg \<Longrightarrow>
           downloadChunk cfg w = (Some e, w') \<Longrightarrow> P i w (Some e, w')"
    and "\<And>i w w' r. of_nat i < concurrentDownloadsMax cfg \<Longrightarrow>
           downloadChunk cfg w = (None, w') \<Longrightarrow> P (Suc i) w' r \<Longrightarrow> P i w r"
  shows "P i w (start_loop cfg i w)"
proof (induction "nat \<lceil>concurrentDownloadsMax cfg\<rceil> - i" arbitrary: i w rule: less_induct)
  case less
  show ?case
  proof (cases "of_nat i < concurrentDownloadsMax cfg")
    case False
    then show ?thesis by (simp add: start_loop.simps [of cfg i w] assms(1))
  next
    case True
    then have "int i < \<lceil>concurrentDownloadsMax cfg\<rceil>" by (simp add: less_ceiling_iff)
    then have m: "nat \<lceil>concurrentDownloadsMax cfg\<rceil> - Suc i < nat \<lceil>concurrentDownloadsMax cfg\<rceil> - i"
      by simp
    obtain r w' where dl: "downloadChunk cfg w = (r, w')" by (cases "downloadChunk cfg w")
    show ?thesis
    proof (cases r)
      case None
      with dl True have "start_loop cfg i w = start_loop cfg (Suc i) w'"
        by (simp add: start_loop.simps [of cfg i w])
      moreover have "P (Suc i) w' (start_loop cfg (Suc i) w')" using m by (rule less)
      ultimately show ?thesis using assms(3) [OF True] dl None by simp
    next
      case (Some e)
      with dl True have "start_loop cfg i w = (Some e, w')"
        by (simp add: start_loop.simps [of cfg i w])
      with assms(2) [OF True] dl Some show ?thesis by simp
    qed
  qed
qed

subsection \<open>The events a step adds\<close>

lemma grows_refl [simp]: "grows w w"
  by (simp add: grows_def)

lemma grows_trans: "grows w w1 \<Longrightarrow> grows w1 w2 \<Longrightarrow> grows w w2"
  by (auto simp: grows_def)

lemma grows_trace_eq: "trace w1 = trace w \<Longrightarrow> grows w1 w2 \<Longrightarrow> grows w w2"
  by (simp add: grows_def)

lemma grows_extends: "grows w w' \<Longrightarrow> \<exists>evs. trace w' = trace w @ evs"
  by (auto simp: grows_def)

lemma callback_grows: "grows w (snd (callback h n p w))"
  by (auto simp: grows_def callback_def split: hook.splits)

lemma downloadChunk_grows: "grows w (snd (downloadChunk cfg w))"
proof (rule downloadChunk_result [where P = "\<lambda>w r. grows w (snd r)"], goal_cases)
  case (2 w rest)
  show ?case by (rule grows_trace_eq [OF _ callback_grows]) simp
next
  case (3 w c rest r)
  then show ?case by (auto simp: grows_def)
next
  case (4 w c rest r)
  then show ?case by (auto simp: grows_def)
qed (simp_all add: grows_def ajax_def)

lemma start_loop_grows: "grows w (snd (start_loop cfg i w))"
proof (rule start_loop_result [where P = "\<lambda>i w r. grows w (snd r)"], goal_cases)
  case (2 i w e w')
  with downloadChunk_grows [of w cfg] show ?case by simp
next
  case (3 i w w' r)
  with downloadChunk_grows [of w cfg] show ?case by (auto intro: grows_trans)
qed simp

lemma start_grows: "grows w (snd (start cfg cs w))"
  unfolding start_def
  by (rule grows_trace_eq [OF _ start_loop_grows]) simp

lemma report_grows: "grows w (snd r) \<Longrightarrow> grows w (report r)"
  by (cases r) (auto simp: report_def grows_def split: option.splits)

lemma completeHandler_grows: "grows w (snd (completeHandler cfg w))"
proof -
  let ?w1 = "w\<lparr>self := (self w)\<lparr>concurrentDownloads := concurrentDownloads (self w) - 1\<rparr>\<rparr>"
  obtain r w2 where cb: "callback (onChunkComplete cfg) OnChunkComplete None ?w1 = (r, w2)"
    by (cases "callback (onChunkComplete cfg) OnChunkComplete None ?w1")
  have "grows ?w1 w2"
    using callback_grows [of ?w1 "onChunkComplete cfg" OnChunkComplete None] cb by simp
  then have w2: "grows w w2" by (simp add: grows_def)
  show ?thesis
  proof (cases r)
    case None
    with cb w2 downloadChunk_grows [of w2 cfg] show ?thesis
      by (auto simp: completeHandler_def intro: grows_trans)
  next
    case (Some e)
    with cb w2 show ?thesis by (simp add: completeHandler_def)
  qed
qed

lemma andThen_complete_grows:
  "grows w (snd r) \<Longrightarrow> grows w (snd (andThen r (completeHandler cfg)))"
  by (cases r) (auto simp: andThen_def split: option.splits intro: grows_trans completeHandler_grows)

lemma successHandler_grows: "grows w (snd (successHandler cfg d w))"
  by (simp add: successHandler_def callback_grows)

lemma errorHandler_grows: "grows w (snd (errorHandler cfg c err w))"
proof -
  have "grows (w\<lparr>self := s\<rparr>) (snd (callback h OnChunkError p (w\<lparr>self := s\<rparr>)))" for s h p
    by (simp add: callback_grows)
  then show ?thesis
    by (auto simp: errorHandler_def Let_def grows_def)
qed

lemma deliver_grows: "deliver cfg i out w = Some w' \<Longrightarrow> grows w w'"
proof -
  let ?w' = "w\<lparr>pending := take i (pending w) @ drop (Suc i) (pending w)\<rparr>"
  have tr: "trace ?w' = trace w" by simp
  assume "deliver cfg i out w = Some w'"
  then show ?thesis
    unfolding deliver_def Let_def
    by (auto split: if_splits request.splits outcome.splits
        intro!: grows_trace_eq [OF tr] report_grows andThen_complete_grows
          successHandler_grows errorHandler_grows start_grows)
qed

lemma deliver_enabled: "deliver cfg i out w = Some w' \<Longrightarrow> i < length (pending w)"
  by (simp add: deliver_def split: if_splits)

lemma reachable_run:
  "reachable cfg w \<longleftrightarrow> (\<exists>acts. run cfg acts (snd (chunkatron cfg)) = Some w)"
proof
  assume "reachable cfg w"
  then show "\<exists>acts. run cfg acts (snd (chunkatron cfg)) = Some w"
  proof (induction rule: reachable.induct)
    case constructed
    have "run cfg [] (snd (chunkatron cfg)) = Some (snd (chunkatron cfg))" by simp
    then show ?case by blast
  next
    case (delivered w i out w')
    then obtain acts where a: "run cfg acts (snd (chunkatron cfg)) = Some w" by blast
    have "run cfg (xs @ [(i, out)]) v = Some w'" if "run cfg xs v = Some w" for xs v
      using that delivered(2) by (induction xs arbitrary: v) (auto split: option.splits)
    from this [OF a] show ?case by blast
  qed
next
  have "reachable cfg v \<Longrightarrow> run cfg acts v = Some w \<Longrightarrow> reachable cfg w" for acts v
  proof (induction acts arbitrary: v)
    case Nil
    then show ?case by simp
  next
    case (Cons a acts)
    obtain i out where a: "a = (i, out)" by (cases a)
    with Cons.prems(2) obtain v' where v': "deliver cfg i out v = Some v'"
      "run cfg acts v' = Some w"
      by (auto split: option.splits)
    from Cons.prems(1) v'(1) have "reachable cfg v'" by (rule delivered)
    from Cons.IH [OF this v'(2)] show ?case .
  qed
  moreover assume "\<exists>acts. run cfg acts (snd (chunkatron cfg)) = Some w"
  ultimately show "reachable cfg w" using constructed by blast
qed

subsection \<open>When \<^verbatim>\<open>onFinished\<close> fires\<close>













lemma three_chunks_started: "chunkatron three_chunks = (None, three_started)"
  by (simp add: three_chunks_def all_hooks_def defaultOptions_def chunkatron_def
      verifySettings_def start_def initial_def downloadChunk.simps start_loop.simps ajax_def
      exceeds_def chunk_key_def three_started_def)




subsection \<open>The in-flight counter\<close>

lemma counter_ok_weaken: "counter_ok cfg (Suc k) w \<Longrightarrow> counter_ok cfg k w"
  by (simp add: counter_ok_def)

lemma callback_counter_ok: "counter_ok cfg k w \<Longrightarrow> counter_ok cfg k (snd (callback h n p w))"
  by (auto simp: counter_ok_def callback_def in_flight_def within_cap_def split: hook.splits)

lemma below_whole_cap:
  fixes x :: int
  assumes "cap = (of_nat m :: rat)" and "\<not> cap \<le> of_int x"
  shows "of_int (x + 1) \<le> cap"
proof -
  from assms have "(of_int x :: rat) < of_int (int m)" by simp
  then have "x < int m" by (simp only: of_int_less_iff)
  then have "x + 1 \<le> int m" by simp
  then have "(of_int (x + 1) :: rat) \<le> of_int (int m)" by (simp only: of_int_le_iff)
  with assms(1) show ?thesis by simp
qed

lemma downloadChunk_counter_ok:
  assumes "concurrentDownloadsMax cfg = of_nat m"
  shows "counter_ok cfg 0 w \<Longrightarrow> counter_ok cfg 0 (snd (downloadChunk cfg w))"
proof -
  have drop: "counter_ok cfg 0 (w\<lparr>self := (self w)\<lparr>chunks := rest\<rparr>\<rparr>)"
    if "counter_ok cfg 0 w" for w rest
    using that by (simp add: counter_ok_def in_flight_def)
  have "counter_ok cfg 0 w \<longrightarrow> counter_ok cfg 0 (snd (downloadChunk cfg w))"
  proof (rule downloadChunk_result
      [where P = "\<lambda>w r. counter_ok cfg 0 w \<longrightarrow> counter_ok cfg 0 (snd r)"], goal_cases)
    case (1 w)
    show ?case by simp
  next
    case (2 w rest)
    show ?case
    proof
      assume "counter_ok cfg 0 w"
      then have "counter_ok cfg 0 (w\<lparr>self := (self w)\<lparr>chunks := rest\<rparr>\<rparr>)" by (rule drop)
      then show "counter_ok cfg 0 (snd (callback (onFinished cfg) OnFinished None
          (w\<lparr>self := (self w)\<lparr>chunks := rest\<rparr>\<rparr>)))"
        by (rule callback_counter_ok)
    qed
  next
    case (3 w c rest r)
    show ?case
    proof
      assume "counter_ok cfg 0 w"
      then have "counter_ok cfg 0 (w\<lparr>self := (self w)\<lparr>chunks := rest\<rparr>\<rparr>)" by (rule drop)
      then have "counter_ok cfg 0 (snd (callback Function OnChunkGiveUp (Some (ChunkParam c))
          (w\<lparr>self := (self w)\<lparr>chunks := rest\<rparr>\<rparr>)))"
        by (rule callback_counter_ok)
      then have "counter_ok cfg 0 (w\<lparr>self := (self w)\<lparr>chunks := rest\<rparr>,
                trace := trace w @
                  [Hook OnChunkGiveUp (Some (ChunkParam c)) ((self w)\<lparr>chunks := rest\<rparr>)]\<rparr>)"
        by (simp add: callback_def)
      with 3(5) show "counter_ok cfg 0 (snd r)" by simp
    qed
  next
    case (4 w c rest r)
    show ?case
    proof
      assume "counter_ok cfg 0 w"
      then have "counter_ok cfg 0 (w\<lparr>self := (self w)\<lparr>chunks := rest\<rparr>\<rparr>)" by (rule drop)
      with 4(5) show "counter_ok cfg 0 (snd r)" by simp
    qed
  next
    case (5 w c rest)
    show ?case using drop [of w rest] by simp
  next
    case (6 w c rest)
    show ?case
    proof
      assume ok: "counter_ok cfg 0 w"
      from below_whole_cap [OF assms 6(1)]
      have "of_int (concurrentDownloads (self w) + 1) \<le> concurrentDownloadsMax cfg" .
      with ok show "counter_ok cfg 0 (snd (None, ajax (PostChunk c)
             (w\<lparr>self := (self w)\<lparr>chunks := rest,
                  concurrentDownloads := concurrentDownloads (self w) + 1\<rparr>\<rparr>)))"
        by (simp add: counter_ok_def in_flight_def ajax_def del: of_int_add)
    qed
  qed
  then show "counter_ok cfg 0 w \<Longrightarrow> counter_ok cfg 0 (snd (downloadChunk cfg w))" by simp
qed

lemma start_loop_counter_ok:
  assumes "concurrentDownloadsMax cfg = of_nat m"
  shows "counter_ok cfg 0 w \<Longrightarrow> counter_ok cfg 0 (snd (start_loop cfg i w))"
proof -
  have "counter_ok cfg 0 w \<longrightarrow> counter_ok cfg 0 (snd (start_loop cfg i w))"
  proof (rule start_loop_result
      [where P = "\<lambda>i w r. counter_ok cfg 0 w \<longrightarrow> counter_ok cfg 0 (snd r)"], goal_cases)
    case (2 i w e w')
    with downloadChunk_counter_ok [OF assms, of w] show ?case by simp
  next
    case (3 i w w' r)
    with downloadChunk_counter_ok [OF assms, of w] show ?case by simp
  qed simp
  then show "counter_ok cfg 0 w \<Longrightarrow> counter_ok cfg 0 (snd (start_loop cfg i w))" by simp
qed

lemma start_counter_ok:
  assumes "concurrentDownloadsMax cfg = of_nat m"
  shows "counter_ok cfg 0 w \<Longrightarrow> counter_ok cfg 0 (snd (start cfg cs w))"
  unfolding start_def
  by (rule start_loop_counter_ok [OF assms]) (simp add: counter_ok_def in_flight_def)

lemma report_counter_ok: "counter_ok cfg k (snd r) \<Longrightarrow> counter_ok cfg k (report r)"
  by (cases r) (auto simp: report_def counter_ok_def in_flight_def split: option.splits)

lemma completeHandler_counter_ok:
  assumes "concurrentDownloadsMax cfg = of_nat m" and "counter_ok cfg (Suc 0) w"
  shows "counter_ok cfg 0 (snd (completeHandler cfg w))"
proof -
  let ?w1 = "w\<lparr>self := (self w)\<lparr>concurrentDownloads := concurrentDownloads (self w) - 1\<rparr>\<rparr>"
  have "(of_int (concurrentDownloads (self w) - 1) :: rat) \<le> of_int (concurrentDownloads (self w))"
    by simp
  then have w1: "counter_ok cfg 0 ?w1" using assms(2) by (simp add: counter_ok_def in_flight_def)
  obtain r w2 where cb: "callback (onChunkComplete cfg) OnChunkComplete None ?w1 = (r, w2)"
    by (cases "callback (onChunkComplete cfg) OnChunkComplete None ?w1")
  have w2: "counter_ok cfg 0 w2"
    using callback_counter_ok [OF w1, of "onChunkComplete cfg" OnChunkComplete None] cb by simp
  show ?thesis
  proof (cases r)
    case None
    with cb downloadChunk_counter_ok [OF assms(1) w2] show ?thesis
      by (simp add: completeHandler_def)
  next
    case (Some e)
    with cb w2 show ?thesis by (simp add: completeHandler_def)
  qed
qed

lemma andThen_complete_counter_ok:
  assumes "concurrentDownloadsMax cfg = of_nat m"
  shows "counter_ok cfg (Suc 0) (snd r) \<Longrightarrow>
    counter_ok cfg 0 (snd (andThen r (completeHandler cfg)))"
  by (cases r)
    (auto simp: andThen_def split: option.splits
      intro: completeHandler_counter_ok [OF assms] counter_ok_weaken)

lemma successHandler_counter_ok:
  "counter_ok cfg k w \<Longrightarrow> counter_ok cfg k (snd (successHandler cfg d w))"
  by (simp add: successHandler_def callback_counter_ok)

lemma errorHandler_counter_ok:
  assumes "counter_ok cfg k w"
  shows "counter_ok cfg k (snd (errorHandler cfg c err w))"
proof -
  have "counter_ok cfg k (w\<lparr>self := (self w)\<lparr>chunkFailures := f, chunks := q\<rparr>\<rparr>)" for f q
    using assms by (simp add: counter_ok_def in_flight_def)
  then show ?thesis
    by (simp add: errorHandler_def Let_def callback_counter_ok)
qed

lemma in_flight_remove:
  assumes "i < length (pending w)" "pending w ! i = PostChunk c"
  shows "in_flight (w\<lparr>pending := take i (pending w) @ drop (Suc i) (pending w)\<rparr>) + 1 = in_flight w"
proof -
  have "pending w = take i (pending w) @ PostChunk c # drop (Suc i) (pending w)"
    using assms by (metis id_take_nth_drop)
  then have "filter is_post (pending w) =
      filter is_post (take i (pending w)) @ PostChunk c # filter is_post (drop (Suc i) (pending w))"
    by (metis filter.simps(2) filter_append is_post.simps(1))
  then show ?thesis by (simp add: in_flight_def)
qed

lemma in_flight_remove_le:
  "in_flight (w\<lparr>pending := take i (pending w) @ drop (Suc i) (pending w)\<rparr>) \<le> in_flight w"
proof (cases "i < length (pending w)")
  case True
  then have "pending w = take i (pending w) @ pending w ! i # drop (Suc i) (pending w)"
    by (rule id_take_nth_drop)
  then have "filter is_post (pending w) =
      filter is_post (take i (pending w)) @
      filter is_post [pending w ! i] @ filter is_post (drop (Suc i) (pending w))"
    by (metis append_Cons append_Nil filter_append)
  then show ?thesis by (simp add: in_flight_def)
next
  case False
  then show ?thesis by (simp add: in_flight_def)
qed

lemma deliver_counter_ok:
  assumes "concurrentDownloadsMax cfg = of_nat m"
    and "counter_ok cfg 0 w" "deliver cfg i out w = Some w'"
  shows "counter_ok cfg 0 w'"
proof -
  let ?w' = "w\<lparr>pending := take i (pending w) @ drop (Suc i) (pending w)\<rparr>"
  from assms(3) have i: "i < length (pending w)" by (rule deliver_enabled)
  have le: "counter_ok cfg 0 ?w'"
    using assms(2) in_flight_remove_le [of i w] by (simp add: counter_ok_def)
  show ?thesis
  proof (cases "pending w ! i")
    case (PostChunk c)
    have "in_flight ?w' + 1 = in_flight w" using i PostChunk by (rule in_flight_remove)
    then have ok1: "counter_ok cfg (Suc 0) ?w'"
      using assms(2) by (simp add: counter_ok_def)
    show ?thesis
    proof (cases out)
      case (Success d)
      with assms(3) i PostChunk show ?thesis
        by (auto simp: deliver_def
            intro!: report_counter_ok andThen_complete_counter_ok [OF assms(1)]
              successHandler_counter_ok ok1)
    next
      case (Failure err)
      with assms(3) i PostChunk show ?thesis
        by (auto simp: deliver_def
            intro!: report_counter_ok andThen_complete_counter_ok [OF assms(1)]
              errorHandler_counter_ok ok1)
    qed (use assms(3) i PostChunk in \<open>simp_all add: deliver_def\<close>)
  next
    case (GetChunks u)
    show ?thesis
    proof (cases out)
      case (Chunks cs)
      with assms(3) i GetChunks show ?thesis
        by (auto simp: deliver_def intro!: report_counter_ok start_counter_ok [OF assms(1)] le)
    next
      case NoChunks
      with assms(3) i GetChunks le show ?thesis
        by (auto simp: deliver_def intro!: report_counter_ok)
    qed (use assms(3) i GetChunks in \<open>simp_all add: deliver_def\<close>)
  qed
qed

lemma chunkatron_counter_ok:
  assumes "concurrentDownloadsMax cfg = of_nat m"
  shows "counter_ok cfg 0 (snd (chunkatron cfg))"
proof -
  have i: "counter_ok cfg 0 initial"
    using assms by (simp add: counter_ok_def initial_def in_flight_def)
  then have "counter_ok cfg 0 (ajax (GetChunks u) initial)" for u
    by (simp add: counter_ok_def initial_def in_flight_def ajax_def)
  with i show ?thesis
    by (auto simp: chunkatron_def start_counter_ok [OF assms] split: sum.splits option.splits)
qed

lemma reachable_counter_ok:
  assumes "concurrentDownloadsMax cfg = of_nat m"
  shows "reachable cfg w \<Longrightarrow> counter_ok cfg 0 w"
  by (induction rule: reachable.induct)
    (auto intro: chunkatron_counter_ok [OF assms] deliver_counter_ok [OF assms])

text \<open>
  Claim C2 says that the counter stays between 0 and \<^verbatim>\<open>concurrentDownloadsMax\<close> for every
  configuration. The source never checks that setting. With the three chunks below and a
  cap of 2.5 the loop in \<^verbatim>\<open>start\<close> makes three passes, the test \<open>2 \<ge> 2.5\<close> lets the third
  request through, and the counter is 3; with a cap of -1 nothing is started and the
  counter, 0, is above the cap.
\<close>

theorem counter_above_cap:
  "reachable fractional_cap (snd (chunkatron fractional_cap)) \<and>
   concurrentDownloadsMax fractional_cap = 5 / 2 \<and>
   concurrentDownloads (self (snd (chunkatron fractional_cap))) = 3 \<and>
   reachable negative_cap (snd (chunkatron negative_cap)) \<and>
   concurrentDownloadsMax negative_cap = - 1 \<and>
   concurrentDownloads (self (snd (chunkatron negative_cap))) = 0"
proof -
  have "concurrentDownloads (self (snd (chunkatron fractional_cap))) = 3"
    by (simp add: fractional_cap_def three_chunks_def all_hooks_def defaultOptions_def
        chunkatron_def verifySettings_def start_def initial_def downloadChunk.simps
        start_loop.simps ajax_def exceeds_def chunk_key_def)
  moreover have "concurrentDownloads (self (snd (chunkatron negative_cap))) = 0"
    by (simp add: negative_cap_def three_chunks_def all_hooks_def defaultOptions_def
        chunkatron_def verifySettings_def start_def initial_def start_loop.simps)
  moreover have "concurrentDownloadsMax fractional_cap = 5 / 2"
    "concurrentDownloadsMax negative_cap = - 1"
    by (simp_all add: fractional_cap_def negative_cap_def)
  ultimately show ?thesis
    using constructed [of fractional_cap] constructed [of negative_cap] by simp
qed

text \<open>
  Claim C2, amended. For every configuration whose \<^verbatim>\<open>concurrentDownloadsMax\<close> is a whole
  number \<open>m \<ge> 0\<close>, and every reachable state of the scheduler, the in-flight counter
  satisfies \<open>0 \<le> concurrentDownloads \<le> concurrentDownloadsMax\<close>. The same bound holds at
  every hook call made on the way, so it also holds inside a step: after the decrement in
  \<^verbatim>\<open>complete\<close>, and on each entry and exit of \<^verbatim>\<open>downloadChunk\<close>. The counter never falls
  below the number of chunk requests in flight, which is why the decrement cannot take it
  below zero. The lemmas above show that \<^verbatim>\<open>downloadChunk\<close>, the start-up loop and every
  request completion keep these bounds.
\<close>

theorem concurrentDownloads_within_cap:
  "concurrentDownloadsMax cfg = of_nat m \<Longrightarrow> reachable cfg w \<Longrightarrow>
     0 \<le> concurrentDownloads (self w) \<and>
     of_int (concurrentDownloads (self w)) \<le> concurrentDownloadsMax cfg \<and>
     int (in_flight w) \<le> concurrentDownloads (self w) \<and>
     (\<forall>n p s. Hook n p s \<in> set (trace w) \<longrightarrow>
        0 \<le> concurrentDownloads s \<and>
        of_int (concurrentDownloads s) \<le> concurrentDownloadsMax cfg)"
proof -
  assume "concurrentDownloadsMax cfg = of_nat m" and "reachable cfg w"
  then have "counter_ok cfg 0 w" by (rule reachable_counter_ok)
  then show ?thesis by (auto simp: counter_ok_def within_cap_def)
qed

theorem concurrentDownloads_within_cap_witness:
  "concurrentDownloadsMax three_chunks = of_nat 2 \<and>
   reachable three_chunks (snd (chunkatron three_chunks)) \<and>
   concurrentDownloads (self (snd (chunkatron three_chunks))) = 2 \<and>
   0 \<le> concurrentDownloads (self (snd (chunkatron three_chunks))) \<and>
   of_int (concurrentDownloads (self (snd (chunkatron three_chunks))))
     \<le> concurrentDownloadsMax three_chunks \<and>
   int (in_flight (snd (chunkatron three_chunks)))
     \<le> concurrentDownloads (self (snd (chunkatron three_chunks)))"
proof -
  have c: "concurrentDownloadsMax three_chunks = of_nat 2"
    by (simp add: three_chunks_def)
  have r: "reachable three_chunks (snd (chunkatron three_chunks))" by (rule constructed)
  have v: "concurrentDownloads (self (snd (chunkatron three_chunks))) = 2"
    by (simp add: three_chunks_started three_started_def)
  from c r v concurrentDownloads_within_cap [OF c r] show ?thesis by simp
qed

subsection \<open>Construction\<close>

lemma verifySettings_passes:
  "verifySettings cfg = Inr () \<longleftrightarrow>
     url cfg \<noteq> None \<and> onChunkComplete cfg \<noteq> Null \<and>
     (settings_chunks cfg \<noteq> None \<or> chunksUrl cfg \<noteq> None)"
  by (simp add: verifySettings_def)

lemma verifySettings_error:
  "verifySettings cfg = Inl e \<Longrightarrow>
     e = MissingSetting ''url'' \<or> e = MissingSetting ''onChunkComplete'' \<or> e = MissingChunkSource"
  by (auto simp: verifySettings_def split: if_splits)

lemma downloadChunk_error: "fst (downloadChunk cfg w) = Some e \<Longrightarrow> e = CallbackNotFunction"
proof -
  have "\<forall>e. fst (downloadChunk cfg w) = Some e \<longrightarrow> e = CallbackNotFunction"
    by (rule downloadChunk_result
        [where P = "\<lambda>w r. \<forall>e. fst r = Some e \<longrightarrow> e = CallbackNotFunction"])
      (auto dest: callback_error)
  then show "fst (downloadChunk cfg w) = Some e \<Longrightarrow> e = CallbackNotFunction" by simp
qed

lemma start_loop_error: "fst (start_loop cfg i w) = Some e \<Longrightarrow> e = CallbackNotFunction"
proof -
  have "\<forall>e. fst (start_loop cfg i w) = Some e \<longrightarrow> e = CallbackNotFunction"
  proof (rule start_loop_result
      [where P = "\<lambda>i w r. \<forall>e. fst r = Some e \<longrightarrow> e = CallbackNotFunction"], goal_cases)
    case (2 i w e w')
    with downloadChunk_error [of cfg w e] show ?case by simp
  qed simp_all
  then show "fst (start_loop cfg i w) = Some e \<Longrightarrow> e = CallbackNotFunction" by simp
qed

lemma start_error: "fst (start cfg cs w) = Some e \<Longrightarrow> e = CallbackNotFunction"
  unfolding start_def by (rule start_loop_error)

lemma chunkatron_invalid:
  assumes "verifySettings cfg \<noteq> Inr ()"
  shows "\<exists>e. verifySettings cfg = Inl e \<and> chunkatron cfg = (Some e, initial)"
  using assms by (cases "verifySettings cfg") (simp_all add: chunkatron_def)

lemma chunkatron_valid:
  assumes "verifySettings cfg = Inr ()"
  shows "fst (chunkatron cfg) = None \<or> fst (chunkatron cfg) = Some CallbackNotFunction"
proof (cases "settings_chunks cfg")
  case None
  with assms have "chunksUrl cfg \<noteq> None" by (simp add: verifySettings_passes)
  with assms None show ?thesis
    by (auto simp: chunkatron_def)
next
  case (Some cs)
  with assms have "chunkatron cfg = start cfg cs initial" by (simp add: chunkatron_def)
  then show ?thesis using start_error [of cfg cs initial] by (cases "fst (start cfg cs initial)") auto
qed

text \<open>
  Claim C5. Whenever \<^verbatim>\<open>url\<close> is null, or \<^verbatim>\<open>onChunkComplete\<close> is null, or both \<^verbatim>\<open>chunks\<close>
  and \<^verbatim>\<open>chunksUrl\<close> are null, the constructor itself throws one of the errors of
  \<^verbatim>\<open>verifySettings\<close>, and it has sent no request: nothing is pending and the trace is
  empty.
\<close>

theorem missing_settings_fail:
  assumes "url cfg = None \<or> onChunkComplete cfg = Null \<or>
           (settings_chunks cfg = None \<and> chunksUrl cfg = None)"
  shows "(\<exists>e. fst (chunkatron cfg) = Some e \<and>
            (e = MissingSetting ''url'' \<or> e = MissingSetting ''onChunkComplete'' \<or>
             e = MissingChunkSource)) \<and>
         pending (snd (chunkatron cfg)) = [] \<and> trace (snd (chunkatron cfg)) = []"
proof -
  from assms have "verifySettings cfg \<noteq> Inr ()" by (auto simp: verifySettings_passes)
  then obtain e where e: "verifySettings cfg = Inl e" "chunkatron cfg = (Some e, initial)"
    using chunkatron_invalid by blast
  from e(1) have "e = MissingSetting ''url'' \<or> e = MissingSetting ''onChunkComplete'' \<or>
      e = MissingChunkSource" by (rule verifySettings_error)
  with e(2) show ?thesis by (simp add: initial_def)
qed

theorem missing_settings_fail_witness:
  "url defaultOptions = None \<and>
   fst (chunkatron defaultOptions) = Some (MissingSetting ''url'') \<and>
   pending (snd (chunkatron defaultOptions)) = [] \<and> trace (snd (chunkatron defaultOptions)) = []"
proof -
  have u: "url defaultOptions = None" by (simp add: defaultOptions_def)
  have "fst (chunkatron defaultOptions) = Some (MissingSetting ''url'')"
    by (simp add: chunkatron_def verifySettings_def defaultOptions_def)
  with u missing_settings_fail [of defaultOptions] show ?thesis by simp
qed

text \<open>
  Claim C7 says that a configuration with both \<^verbatim>\<open>chunks\<close> and \<^verbatim>\<open>chunksUrl\<close> is rejected.
  It is not: \<^verbatim>\<open>verifySettings\<close> only rejects a configuration with neither, and the
  constructor of the configuration below returns normally.
\<close>

theorem both_sources_accepted:
  "url both_sources \<noteq> None \<and> onChunkComplete both_sources \<noteq> Null \<and>
   settings_chunks both_sources = Some [Some [1]] \<and> chunksUrl both_sources = Some ''/chunks'' \<and>
   verifySettings both_sources = Inr () \<and> fst (chunkatron both_sources) = None"
  by (simp add: both_sources_def all_hooks_def defaultOptions_def chunkatron_def
      verifySettings_def start_def initial_def downloadChunk.simps start_loop.simps ajax_def
      exceeds_def chunk_key_def callback_def)

text \<open>
  Claim C7, amended. Construction requires at least one chunk source: the constructor
  throws a configuration error exactly when \<^verbatim>\<open>url\<close> is null, \<^verbatim>\<open>onChunkComplete\<close> is null,
  or both \<^verbatim>\<open>chunks\<close> and \<^verbatim>\<open>chunksUrl\<close> are null. A configuration that supplies both chunk
  sources is therefore not rejected.
\<close>

theorem configuration_error_iff:
  "(fst (chunkatron cfg) = Some (MissingSetting ''url'') \<or>
    fst (chunkatron cfg) = Some (MissingSetting ''onChunkComplete'') \<or>
    fst (chunkatron cfg) = Some MissingChunkSource) \<longleftrightarrow>
   (url cfg = None \<or> onChunkComplete cfg = Null \<or>
    (settings_chunks cfg = None \<and> chunksUrl cfg = None))"
proof (cases "verifySettings cfg = Inr ()")
  case True
  with chunkatron_valid [OF True] show ?thesis by (auto simp: verifySettings_passes)
next
  case False
  then obtain e where e: "verifySettings cfg = Inl e" "chunkatron cfg = (Some e, initial)"
    using chunkatron_invalid by blast
  from e(1) have "e = MissingSetting ''url'' \<or> e = MissingSetting ''onChunkComplete'' \<or>
      e = MissingChunkSource" by (rule verifySettings_error)
  with e(2) False show ?thesis by (auto simp: verifySettings_passes)
qed


subsection \<open>Start-up from the supplied chunks\<close>

lemma the_chunks_Some [simp]: "the_chunks (map Some cs) = cs"
  by (induction cs) simp_all

lemma whole_cap [simp]: "nat \<lceil>(of_nat m :: rat)\<rceil> = m"
  by simp

lemma downloadChunk_fresh:
  assumes "chunkFailures (self w) = Map.empty"
    and "\<not> of_int (concurrentDownloads (self w)) \<ge> concurrentDownloadsMax cfg"
  shows "downloadChunk cfg w =
     (case shift (chunks (self w)) of
        (None, rest) \<Rightarrow>
          callback (onFinished cfg) OnFinished None (w\<lparr>self := (self w)\<lparr>chunks := rest\<rparr>\<rparr>)
      | (Some c, rest) \<Rightarrow>
          (None, ajax (PostChunk c)
             (w\<lparr>self := (self w)\<lparr>chunks := rest,
                  concurrentDownloads := concurrentDownloads (self w) + 1\<rparr>\<rparr>)))"
  using assms
  by (simp add: downloadChunk.simps [of cfg w] exceeds_def split: prod.splits option.splits)

lemma start_loop_fresh:
  assumes "onFinished cfg \<noteq> Other"
  shows "chunkFailures (self w) = Map.empty \<and> concurrentDownloads (self w) \<le> int i \<longrightarrow>
     fst (start_loop cfg i w) = None \<and>
     pending (snd (start_loop cfg i w)) =
       pending w @
       map PostChunk (the_chunks (take (nat \<lceil>concurrentDownloadsMax cfg\<rceil> - i) (chunks (self w)))) \<and>
     chunks (self (snd (start_loop cfg i w))) =
       drop (nat \<lceil>concurrentDownloadsMax cfg\<rceil> - i) (chunks (self w))"
proof (rule start_loop_result
    [where P = "\<lambda>i w r.
       chunkFailures (self w) = Map.empty \<and> concurrentDownloads (self w) \<le> int i \<longrightarrow>
       fst r = None \<and>
       pending (snd r) =
         pending w @
         map PostChunk (the_chunks (take (nat \<lceil>concurrentDownloadsMax cfg\<rceil> - i) (chunks (self w)))) \<and>
       chunks (self (snd r)) =
         drop (nat \<lceil>concurrentDownloadsMax cfg\<rceil> - i) (chunks (self w))"], goal_cases)
  case (1 i w)
  then have "\<lceil>concurrentDownloadsMax cfg\<rceil> \<le> int i" by (simp add: ceiling_le_iff)
  then have "nat \<lceil>concurrentDownloadsMax cfg\<rceil> - i = 0" by simp
  then show ?case by simp
next
  case (2 i w e w')
  show ?case
  proof
    assume a: "chunkFailures (self w) = Map.empty \<and> concurrentDownloads (self w) \<le> int i"
    then have "(of_int (concurrentDownloads (self w)) :: rat) \<le> of_int (int i)"
      by (simp only: of_int_le_iff)
    with 2(1) have free: "\<not> of_int (concurrentDownloads (self w)) \<ge> concurrentDownloadsMax cfg"
      by simp
    from downloadChunk_fresh [OF _ free] a 2(2) assms have False
      by (cases "onFinished cfg")
        (auto simp: callback_def split: prod.splits option.splits)
    then show "fst (Some e, w') = None \<and>
       pending (snd (Some e, w')) =
         pending w @
         map PostChunk (the_chunks (take (nat \<lceil>concurrentDownloadsMax cfg\<rceil> - i) (chunks (self w)))) \<and>
       chunks (self (snd (Some e, w'))) =
         drop (nat \<lceil>concurrentDownloadsMax cfg\<rceil> - i) (chunks (self w))" ..
  qed
next
  case (3 i w w' r)
  show ?case
  proof
    assume a: "chunkFailures (self w) = Map.empty \<and> concurrentDownloads (self w) \<le> int i"
    then have "(of_int (concurrentDownloads (self w)) :: rat) \<le> of_int (int i)"
      by (simp only: of_int_le_iff)
    with 3(1) have free: "\<not> of_int (concurrentDownloads (self w)) \<ge> concurrentDownloadsMax cfg"
      by simp
    from 3(1) have "int i < \<lceil>concurrentDownloadsMax cfg\<rceil>" by (simp add: less_ceiling_iff)
    then have n: "nat \<lceil>concurrentDownloadsMax cfg\<rceil> - i =
        Suc (nat \<lceil>concurrentDownloadsMax cfg\<rceil> - Suc i)"
      by simp
    note dl = downloadChunk_fresh [OF _ free]
    show "fst r = None \<and>
       pending (snd r) =
         pending w @
         map PostChunk (the_chunks (take (nat \<lceil>concurrentDownloadsMax cfg\<rceil> - i) (chunks (self w)))) \<and>
       chunks (self (snd r)) =
         drop (nat \<lceil>concurrentDownloadsMax cfg\<rceil> - i) (chunks (self w))"
    proof (cases "chunks (self w)")
      case Nil
      with dl a 3(2) have "callback (onFinished cfg) OnFinished None
          (w\<lparr>self := (self w)\<lparr>chunks := []\<rparr>\<rparr>) = (None, w')"
        by simp
      from callback_returns [OF this]
      have "self w' = (self w)\<lparr>chunks := []\<rparr>" "pending w' = pending w" by simp_all
      with 3(3) a Nil show ?thesis by simp
    next
      case (Cons x rest)
      show ?thesis
      proof (cases x)
        case None
        with Cons dl a 3(2) have "callback (onFinished cfg) OnFinished None
            (w\<lparr>self := (self w)\<lparr>chunks := rest\<rparr>\<rparr>) = (None, w')"
          by simp
        from callback_returns [OF this]
        have "self w' = (self w)\<lparr>chunks := rest\<rparr>" "pending w' = pending w" by simp_all
        with 3(3) a Cons None n show ?thesis by simp
      next
        case (Some c)
        with Cons dl a 3(2) have "w' = ajax (PostChunk c)
             (w\<lparr>self := (self w)\<lparr>chunks := rest,
                  concurrentDownloads := concurrentDownloads (self w) + 1\<rparr>\<rparr>)"
          by simp
        with 3(3) a Cons Some n show ?thesis by (simp add: ajax_def)
      qed
    qed
  qed
qed

lemma reachable_expected:
  assumes "settings_chunks cfg \<noteq> None"
  shows "reachable cfg w \<Longrightarrow> list_all expected (trace w)"
proof (induction rule: reachable.induct)
  case constructed
  from assms obtain cs where cs: "settings_chunks cfg = Some cs" by auto
  have "grows initial (snd (start cfg cs initial))" by (rule start_grows)
  then have "list_all expected (trace (snd (start cfg cs initial)))"
    by (auto simp: grows_def initial_def)
  with cs show ?case
    by (auto simp: chunkatron_def initial_def split: sum.splits)
next
  case (delivered w i out w')
  from delivered(2) have "grows w w'" by (rule deliver_grows)
  with delivered(3) show ?case by (auto simp: grows_def)
qed

text \<open>
  Claim C10 says that every configuration with both \<^verbatim>\<open>chunks\<close> and \<^verbatim>\<open>chunksUrl\<close> (and with
  \<^verbatim>\<open>url\<close> and \<^verbatim>\<open>onChunkComplete\<close>) is constructed successfully. The configuration below is
  one, with a single chunk, the default cap of 10 and an \<^verbatim>\<open>onFinished\<close> that is neither a
  function nor null: the second pass of the loop in \<^verbatim>\<open>start\<close> finds the queue empty, hands
  \<^verbatim>\<open>onFinished\<close> to \<^verbatim>\<open>callback\<close>, and the constructor throws.
\<close>

theorem both_sources_bad_onFinished:
  "url bad_onFinished \<noteq> None \<and> onChunkComplete bad_onFinished \<noteq> Null \<and>
   settings_chunks bad_onFinished = Some [Some [1]] \<and>
   chunksUrl bad_onFinished = Some ''/chunks'' \<and>
   fst (chunkatron bad_onFinished) = Some CallbackNotFunction"
  by (simp add: bad_onFinished_def both_sources_def all_hooks_def defaultOptions_def chunkatron_def
      verifySettings_def start_def initial_def downloadChunk.simps start_loop.simps ajax_def
      exceeds_def chunk_key_def callback_def)

text \<open>
  Claim C10, amended. For every configuration that supplies both \<^verbatim>\<open>chunks\<close> and \<^verbatim>\<open>chunksUrl\<close>
  (with \<^verbatim>\<open>url\<close> and \<^verbatim>\<open>onChunkComplete\<close> present) and whose \<^verbatim>\<open>onFinished\<close> is a function or
  null, the constructor returns normally; it has by then taken the first
  \<^verbatim>\<open>concurrentDownloadsMax\<close> entries off the supplied list (that number rounded up when it is
  not whole), sent a request for each of them that is a chunk, and left the rest queued;
  and no request to \<^verbatim>\<open>chunksUrl\<close> is ever sent. For a list of chunks and a whole cap \<open>m\<close>
  the requests are those for the first \<open>m\<close> chunks (\<open>the_chunks_Some\<close>, \<open>whole_cap\<close>).
\<close>

theorem chunks_take_precedence:
  assumes "url cfg \<noteq> None" and "onChunkComplete cfg \<noteq> Null"
    and "settings_chunks cfg = Some cs" and "chunksUrl cfg = Some u"
    and "onFinished cfg \<noteq> Other"
  shows "fst (chunkatron cfg) = None \<and>
         pending (snd (chunkatron cfg)) =
           map PostChunk (the_chunks (take (nat \<lceil>concurrentDownloadsMax cfg\<rceil>) cs)) \<and>
         chunks (self (snd (chunkatron cfg))) = drop (nat \<lceil>concurrentDownloadsMax cfg\<rceil>) cs \<and>
         (\<forall>w v. reachable cfg w \<longrightarrow> Ajax (GetChunks v) \<notin> set (trace w))"
proof -
  from assms have "verifySettings cfg = Inr ()" by (simp add: verifySettings_passes)
  with assms(3) have c: "chunkatron cfg = start cfg cs initial" by (simp add: chunkatron_def)
  let ?w0 = "initial\<lparr>self := (self initial)\<lparr>chunks := cs\<rparr>\<rparr>"
  have "chunkFailures (self ?w0) = Map.empty \<and> concurrentDownloads (self ?w0) \<le> int 0"
    by (simp add: initial_def)
  with start_loop_fresh [OF assms(5), of ?w0 0] c
  have 1: "fst (chunkatron cfg) = None \<and>
         pending (snd (chunkatron cfg)) =
           map PostChunk (the_chunks (take (nat \<lceil>concurrentDownloadsMax cfg\<rceil>) cs)) \<and>
         chunks (self (snd (chunkatron cfg))) = drop (nat \<lceil>concurrentDownloadsMax cfg\<rceil>) cs"
    by (simp add: start_def initial_def)
  have 2: "Ajax (GetChunks v) \<notin> set (trace w)" if "reachable cfg w" for w v
  proof
    assume "Ajax (GetChunks v) \<in> set (trace w)"
    moreover have "list_all expected (trace w)"
      using reachable_expected [OF _ that] assms(3) by simp
    ultimately have "expected (Ajax (GetChunks v))" by (auto simp: list_all_iff)
    then show False by simp
  qed
  from 1 2 show ?thesis by blast
qed

theorem chunks_take_precedence_witness:
  "url both_sources \<noteq> None \<and> onChunkComplete both_sources \<noteq> Null \<and>
   settings_chunks both_sources = Some [Some [1]] \<and> chunksUrl both_sources = Some ''/chunks'' \<and>
   onFinished both_sources \<noteq> Other \<and>
   fst (chunkatron both_sources) = None \<and>
   pending (snd (chunkatron both_sources)) = [PostChunk [1]] \<and>
   chunks (self (snd (chunkatron both_sources))) = [] \<and>
   reachable both_sources (snd (chunkatron both_sources)) \<and>
   Ajax (GetChunks ''/chunks'') \<notin> set (trace (snd (chunkatron both_sources)))"
proof -
  have h: "url both_sources \<noteq> None" "onChunkComplete both_sources \<noteq> Null"
    "settings_chunks both_sources = Some [Some [1]]" "chunksUrl both_sources = Some ''/chunks''"
    "onFinished both_sources \<noteq> Other"
    by (simp_all add: both_sources_def all_hooks_def defaultOptions_def)
  have r: "reachable both_sources (snd (chunkatron both_sources))" by (rule constructed)
  have cap: "concurrentDownloadsMax both_sources = 10"
    by (simp add: both_sources_def all_hooks_def defaultOptions_def)
  from chunks_take_precedence [OF h] h r cap show ?thesis by simp
qed

subsection \<open>A failed request\<close>

lemma post_at:
  "list_all is_post ps \<Longrightarrow> i < length ps \<Longrightarrow> \<exists>c. ps ! i = PostChunk c"
  by (metis is_post.elims(2) list_all_length)

lemma post_remove: "list_all is_post ps \<Longrightarrow> list_all is_post (take i ps @ drop (Suc i) ps)"
  by (auto simp: list_all_iff dest: in_set_takeD in_set_dropD)

lemma calls_outline: "calls n tr = length (filter (\<lambda>e. e = Called n) (map outline tr))"
  unfolding calls_def by (induction tr) (auto elim: is_call.elims outline.elims)

lemma attempts_outline:
  "attempts c tr = length (filter (\<lambda>e. e = Requested (PostChunk c)) (map outline tr))"
  unfolding attempts_def by (induction tr) (auto elim: outline.elims)

lemma given_up_append: "given_up (xs @ ys) = given_up xs @ given_up ys"
  by (induction xs rule: given_up.induct) simp_all

lemma errorHandler_result:
  "errorHandler cfg c err w =
     callback (onChunkError cfg) OnChunkError (Some (ErrorParam err))
       (w\<lparr>self := (self w)
          \<lparr>chunkFailures := (chunkFailures (self w))
             (chunk_key c \<mapsto> (case chunkFailures (self w) (chunk_key c) of
                                   None \<Rightarrow> 1 | Some n \<Rightarrow> n + 1)),
           chunks := chunks (self w) @ [Some c]\<rparr>\<rparr>)"
  by (simp add: errorHandler_def Let_def)

lemma completeHandler_result:
  "completeHandler cfg w =
     (case onChunkComplete cfg of
        Function \<Rightarrow>
          downloadChunk cfg
            (w\<lparr>self := (self w)\<lparr>concurrentDownloads := concurrentDownloads (self w) - 1\<rparr>,
               trace := trace w @
                 [Hook OnChunkComplete None
                    ((self w)\<lparr>concurrentDownloads := concurrentDownloads (self w) - 1\<rparr>)]\<rparr>)
      | Null \<Rightarrow>
          downloadChunk cfg
            (w\<lparr>self := (self w)\<lparr>concurrentDownloads := concurrentDownloads (self w) - 1\<rparr>\<rparr>)
      | Other \<Rightarrow>
          (Some CallbackNotFunction,
           w\<lparr>self := (self w)\<lparr>concurrentDownloads := concurrentDownloads (self w) - 1\<rparr>\<rparr>))"
  by (simp add: completeHandler_def callback_def split: hook.splits)

lemma deliver_success:
  assumes "onChunkSuccess cfg = Function" and "onChunkComplete cfg = Function"
    and "i < length (pending w)" and "pending w ! i = PostChunk c"
  shows "deliver cfg i (Success d) w =
     Some (report (downloadChunk cfg
       (w\<lparr>pending := take i (pending w) @ drop (Suc i) (pending w),
          self := (self w)\<lparr>concurrentDownloads := concurrentDownloads (self w) - 1\<rparr>,
          trace := trace w @
            [Hook OnChunkSuccess (passed (Some (DataParam d))) (self w),
             Hook OnChunkComplete None
               ((self w)\<lparr>concurrentDownloads := concurrentDownloads (self w) - 1\<rparr>)]\<rparr>)))"
  using assms
  by (simp add: deliver_def successHandler_def completeHandler_def callback_def andThen_def)

lemma deliver_failure:
  assumes "onChunkError cfg = Function" and "onChunkComplete cfg = Function"
    and "i < length (pending w)" and "pending w ! i = PostChunk c"
  shows "deliver cfg i (Failure err) w =
     Some (report (downloadChunk cfg
       (w\<lparr>pending := take i (pending w) @ drop (Suc i) (pending w),
          self := (self w)
            \<lparr>chunkFailures := (chunkFailures (self w))
               (chunk_key c \<mapsto> (case chunkFailures (self w) (chunk_key c) of
                                     None \<Rightarrow> 1 | Some n \<Rightarrow> n + 1)),
             chunks := chunks (self w) @ [Some c],
             concurrentDownloads := concurrentDownloads (self w) - 1\<rparr>,
          trace := trace w @
            [Hook OnChunkError (passed (Some (ErrorParam err)))
               ((self w)
                \<lparr>chunkFailures := (chunkFailures (self w))
                   (chunk_key c \<mapsto> (case chunkFailures (self w) (chunk_key c) of
                                         None \<Rightarrow> 1 | Some n \<Rightarrow> n + 1)),
                 chunks := chunks (self w) @ [Some c]\<rparr>),
             Hook OnChunkComplete None
               ((self w)
                \<lparr>chunkFailures := (chunkFailures (self w))
                   (chunk_key c \<mapsto> (case chunkFailures (self w) (chunk_key c) of
                                         None \<Rightarrow> 1 | Some n \<Rightarrow> n + 1)),
                 chunks := chunks (self w) @ [Some c],
                 concurrentDownloads := concurrentDownloads (self w) - 1\<rparr>)]\<rparr>)))"
  using assms
  by (simp add: deliver_def errorHandler_def completeHandler_def callback_def andThen_def Let_def)

text \<open>
  Claim C3 says that a failed request ends with a call of \<^verbatim>\<open>onChunkError\<close> with the error
  detail. Two runs of the single chunk \<open>[2,1]\<close>, one request at a time, show otherwise. In
  the first every hook is a function and the request fails with an empty detail, as jQuery
  reports a request that got no answer: \<^verbatim>\<open>callback\<close> finds the detail falsy and calls the hook
  with no argument. In the second only the required hooks are set, so \<^verbatim>\<open>onChunkError\<close> is
  null, and the failure with the detail \<open>Not Found\<close> leads to no call of it at all. In both
  the failure is counted under \<open>2\<close> and the chunk queued again before the call.
\<close>

theorem onChunkError_without_detail:
  "deliver one_chunk 0 (Failure []) (snd (chunkatron one_chunk)) =
     Some \<lparr>self = \<lparr>chunks = [], concurrentDownloads = 1, chunkFailures = [Some 2 \<mapsto> 1]\<rparr>,
           pending = [PostChunk [2, 1]],
           trace = [Ajax (PostChunk [2, 1]),
                    Hook OnChunkError None
                      \<lparr>chunks = [Some [2, 1]], concurrentDownloads = 1,
                       chunkFailures = [Some 2 \<mapsto> 1]\<rparr>,
                    Hook OnChunkComplete None
                      \<lparr>chunks = [Some [2, 1]], concurrentDownloads = 0,
                       chunkFailures = [Some 2 \<mapsto> 1]\<rparr>,
                    Ajax (PostChunk [2, 1])]\<rparr> \<and>
   deliver one_chunk_quiet 0 (Failure ''Not Found'') (snd (chunkatron one_chunk_quiet)) =
     Some \<lparr>self = \<lparr>chunks = [], concurrentDownloads = 1, chunkFailures = [Some 2 \<mapsto> 1]\<rparr>,
           pending = [PostChunk [2, 1]],
           trace = [Ajax (PostChunk [2, 1]),
                    Hook OnChunkComplete None
                      \<lparr>chunks = [Some [2, 1]], concurrentDownloads = 0,
                       chunkFailures = [Some 2 \<mapsto> 1]\<rparr>,
                    Ajax (PostChunk [2, 1])]\<rparr>"
  by (simp add: one_chunk_def one_chunk_quiet_def all_hooks_def defaultOptions_def chunkatron_def
      verifySettings_def start_def initial_def deliver_def Let_def errorHandler_def
      completeHandler_def andThen_def report_def callback_def downloadChunk.simps
      start_loop.simps ajax_def exceeds_def chunk_key_def)

text \<open>
  Claim C3, amended. When the request of an in-flight chunk \<open>c\<close> ends in an error, the
  handler first counts the failure under the key \<open>c[0]\<close> (1 for the first one), then pushes
  \<open>c\<close> onto the back of the queue, and then hands the error detail to \<^verbatim>\<open>onChunkError\<close>
  through \<^verbatim>\<open>callback\<close>, in that order. A hook that is a function is called, with the detail
  when that is not empty and with no argument when it is; the snapshot taken at the call
  already shows the new count and \<open>c\<close> behind every entry that was queued. A null hook is
  skipped. Any other value makes \<^verbatim>\<open>callback\<close> throw, after the two updates. Then the
  dispatch goes on with \<^verbatim>\<open>complete\<close>, unless \<^verbatim>\<open>callback\<close> has thrown.
\<close>

theorem error_requeues_at_back:
  fixes cfg :: settings and w :: world and c :: chunk and err :: string
  assumes "i < length (pending w)" and "pending w ! i = PostChunk c"
  defines "w0 \<equiv> w\<lparr>pending := take i (pending w) @ drop (Suc i) (pending w)\<rparr>"
  defines "k \<equiv> (case c of [] \<Rightarrow> None | x # xs \<Rightarrow> Some x)"
  defines "s' \<equiv> (self w)
      \<lparr>chunkFailures := (chunkFailures (self w))
         (k \<mapsto> (case chunkFailures (self w) k of None \<Rightarrow> 1 | Some n \<Rightarrow> n + 1)),
       chunks := chunks (self w) @ [Some c]\<rparr>"
  shows "errorHandler cfg c err w0 =
           (case onChunkError cfg of
              Function \<Rightarrow>
                (None, w0\<lparr>self := s',
                   trace := trace w @
                     [Hook OnChunkError (if err = [] then None else Some (ErrorParam err)) s']\<rparr>)
            | Null \<Rightarrow> (None, w0\<lparr>self := s'\<rparr>)
            | Other \<Rightarrow> (Some CallbackNotFunction, w0\<lparr>self := s'\<rparr>)) \<and>
         deliver cfg i (Failure err) w =
           Some (report (andThen (errorHandler cfg c err w0) (completeHandler cfg)))"
proof -
  have "chunk_key c = k" by (simp add: chunk_key_def k_def)
  then have "errorHandler cfg c err w0 =
           (case onChunkError cfg of
              Function \<Rightarrow>
                (None, w0\<lparr>self := s',
                   trace := trace w @
                     [Hook OnChunkError (if err = [] then None else Some (ErrorParam err)) s']\<rparr>)
            | Null \<Rightarrow> (None, w0\<lparr>self := s'\<rparr>)
            | Other \<Rightarrow> (Some CallbackNotFunction, w0\<lparr>self := s'\<rparr>))"
    by (simp add: errorHandler_result callback_def w0_def s'_def split: hook.splits)
  moreover have "deliver cfg i (Failure err) w =
      Some (report (andThen (errorHandler cfg c err w0) (completeHandler cfg)))"
    using assms(1,2) by (simp add: deliver_def w0_def)
  ultimately show ?thesis by simp
qed

theorem error_requeues_at_back_witness:
  "errorHandler all_hooks [2, 1] ''Not Found''
     \<lparr>self = \<lparr>chunks = [Some [7]], concurrentDownloads = 2,
              chunkFailures = [Some 2 \<mapsto> 1, Some 1 \<mapsto> 5]\<rparr>,
      pending = [PostChunk [4]],
      trace = []\<rparr> =
     (None,
      \<lparr>self = \<lparr>chunks = [Some [7], Some [2, 1]], concurrentDownloads = 2,
                chunkFailures = [Some 2 \<mapsto> 2, Some 1 \<mapsto> 5]\<rparr>,
       pending = [PostChunk [4]],
       trace = [Hook OnChunkError (Some (ErrorParam ''Not Found''))
                  \<lparr>chunks = [Some [7], Some [2, 1]], concurrentDownloads = 2,
                   chunkFailures = [Some 2 \<mapsto> 2, Some 1 \<mapsto> 5]\<rparr>]\<rparr>)"
proof -
  let ?w = "\<lparr>self = \<lparr>chunks = [Some [7]], concurrentDownloads = 2,
              chunkFailures = [Some 2 \<mapsto> 1, Some 1 \<mapsto> 5]\<rparr>,
      pending = [PostChunk [4], PostChunk [2, 1]],
      trace = []\<rparr>"
  have h: "1 < length (pending ?w)" "pending ?w ! 1 = PostChunk [2, 1]" by simp_all
  have f: "onChunkError all_hooks = Function" by (simp add: all_hooks_def defaultOptions_def)
  have m: "[Some 2 \<mapsto> 1, Some 1 \<mapsto> 5](Some (2::nat) \<mapsto> (2::nat)) = [Some 2 \<mapsto> 2, Some 1 \<mapsto> 5]"
    by (rule ext) simp
  from error_requeues_at_back [OF h, of all_hooks "''Not Found''"] f m show ?thesis
    by (simp add: numeral_2_eq_2 [symmetric])
qed

subsection \<open>Three chunks, two at a time, all successful\<close>

lemma three_step1:
  assumes "deliver three_chunks i (Success d) three_started = Some w1"
  shows "self w1 = \<lparr>chunks = [], concurrentDownloads = 2, chunkFailures = Map.empty\<rparr> \<and>
         length (pending w1) = 2 \<and> list_all is_post (pending w1) \<and>
         map outline (trace w1) =
           [Requested (PostChunk [1]), Requested (PostChunk [2]),
            Called OnChunkSuccess, Called OnChunkComplete, Requested (PostChunk [3])]"
proof -
  have h: "onChunkSuccess three_chunks = Function" "onChunkComplete three_chunks = Function"
    "concurrentDownloadsMax three_chunks = 2"
    by (simp_all add: three_chunks_def all_hooks_def defaultOptions_def)
  have p: "list_all is_post (pending three_started)" "length (pending three_started) = 2"
    by (simp_all add: three_started_def)
  from assms have i: "i < length (pending three_started)" by (rule deliver_enabled)
  with p(1) obtain c where c: "pending three_started ! i = PostChunk c"
    using post_at by blast
  have "list_all is_post (take i (pending three_started) @ drop (Suc i) (pending three_started))"
    using p(1) by (rule post_remove)
  moreover have "length (take i (pending three_started) @ drop (Suc i) (pending three_started)) = 1"
    using i p(2) by auto
  ultimately show ?thesis
    using assms
    unfolding deliver_success [OF h(1,2) i c]
    by (auto simp: downloadChunk_fresh h(3) report_def ajax_def three_started_def)
qed

lemma three_drain:
  assumes "self w = \<lparr>chunks = [], concurrentDownloads = int (Suc k), chunkFailures = Map.empty\<rparr>"
    and "Suc k \<le> 2" and "length (pending w) = Suc k" and "list_all is_post (pending w)"
    and "deliver three_chunks i (Success d) w = Some w'"
  shows "self w' = \<lparr>chunks = [], concurrentDownloads = int k, chunkFailures = Map.empty\<rparr> \<and>
         length (pending w') = k \<and> list_all is_post (pending w') \<and>
         map outline (trace w') =
           map outline (trace w) @ [Called OnChunkSuccess, Called OnChunkComplete, Called OnFinished]"
proof -
  have h: "onChunkSuccess three_chunks = Function" "onChunkComplete three_chunks = Function"
    "concurrentDownloadsMax three_chunks = 2" "onFinished three_chunks = Function"
    by (simp_all add: three_chunks_def all_hooks_def defaultOptions_def)
  from assms(5) have i: "i < length (pending w)" by (rule deliver_enabled)
  with assms(4) obtain c where c: "pending w ! i = PostChunk c"
    using post_at by blast
  have "list_all is_post (take i (pending w) @ drop (Suc i) (pending w))"
    using assms(4) by (rule post_remove)
  moreover have "length (take i (pending w) @ drop (Suc i) (pending w)) = k"
    using i assms(3) by auto
  ultimately show ?thesis
    using assms(1,2,5)
    unfolding deliver_success [OF h(1,2) i c]
    by (auto simp: downloadChunk_fresh h(3,4) report_def callback_def)
qed

text \<open>
  Claim C6. With the chunks \<open>[[1],[2],[3]]\<close>, a cap of 2 and every hook a function, take any
  execution in which every request succeeds, whatever the order of the responses and their
  payloads, up to the point where no request is pending. It has exactly 3 calls of
  \<^verbatim>\<open>onChunkSuccess\<close> and 3 of \<^verbatim>\<open>onChunkComplete\<close>, and its last event is a call of
  \<^verbatim>\<open>onFinished\<close>, after all of them. The trace also shows an earlier call of \<^verbatim>\<open>onFinished\<close>,
  made when the second response found the queue empty while the third request was in
  flight.
\<close>

theorem three_chunks_all_succeed:
  assumes "run three_chunks acts (snd (chunkatron three_chunks)) = Some w"
    and "\<forall>a \<in> set acts. \<exists>d. snd a = Success d"
    and "pending w = []"
  shows "calls OnChunkSuccess (trace w) = 3 \<and> calls OnChunkComplete (trace w) = 3 \<and>
         map outline (trace w) =
           [Requested (PostChunk [1]), Requested (PostChunk [2]),
            Called OnChunkSuccess, Called OnChunkComplete, Requested (PostChunk [3]),
            Called OnChunkSuccess, Called OnChunkComplete, Called OnFinished,
            Called OnChunkSuccess, Called OnChunkComplete, Called OnFinished]"
proof -
  have start: "snd (chunkatron three_chunks) = three_started"
    by (simp add: three_chunks_started)
  have p0: "pending three_started \<noteq> []" by (simp add: three_started_def)
  obtain i1 d1 r1 where a1: "acts = (i1, Success d1) # r1"
  proof (cases acts)
    case Nil
    with assms(1,3) start p0 show ?thesis by simp
  next
    case (Cons a r)
    with assms(2) that show ?thesis by (cases a) auto
  qed
  from assms(1) a1 start obtain w1 where
    w1: "deliver three_chunks i1 (Success d1) three_started = Some w1"
    and run1: "run three_chunks r1 w1 = Some w"
    by (auto split: option.splits)
  note s1 = three_step1 [OF w1]
  obtain i2 d2 r2 where a2: "r1 = (i2, Success d2) # r2"
  proof (cases r1)
    case Nil
    with run1 assms(3) s1 show ?thesis by auto
  next
    case (Cons a r)
    with assms(2) a1 that show ?thesis by (cases a) auto
  qed
  from run1 a2 obtain w2 where
    w2: "deliver three_chunks i2 (Success d2) w1 = Some w2"
    and run2: "run three_chunks r2 w2 = Some w"
    by (auto split: option.splits)
  have s2: "self w2 = \<lparr>chunks = [], concurrentDownloads = int 1, chunkFailures = Map.empty\<rparr> \<and>
         length (pending w2) = 1 \<and> list_all is_post (pending w2) \<and>
         map outline (trace w2) =
           map outline (trace w1) @ [Called OnChunkSuccess, Called OnChunkComplete, Called OnFinished]"
    using s1 by (intro three_drain [OF _ _ _ _ w2]) simp_all
  obtain i3 d3 r3 where a3: "r2 = (i3, Success d3) # r3"
  proof (cases r2)
    case Nil
    with run2 assms(3) s2 show ?thesis by auto
  next
    case (Cons a r)
    with assms(2) a1 a2 that show ?thesis by (cases a) auto
  qed
  from run2 a3 obtain w3 where
    w3: "deliver three_chunks i3 (Success d3) w2 = Some w3"
    and run3: "run three_chunks r3 w3 = Some w"
    by (auto split: option.splits)
  have s3: "self w3 = \<lparr>chunks = [], concurrentDownloads = int 0, chunkFailures = Map.empty\<rparr> \<and>
         length (pending w3) = 0 \<and> list_all is_post (pending w3) \<and>
         map outline (trace w3) =
           map outline (trace w2) @ [Called OnChunkSuccess, Called OnChunkComplete, Called OnFinished]"
    using s2 by (intro three_drain [OF _ _ _ _ w3]) simp_all
  have "r3 = []"
  proof (cases r3)
    case (Cons a r)
    obtain i4 out4 where "a = (i4, out4)" by (cases a)
    with run3 Cons obtain w4 where "deliver three_chunks i4 out4 w3 = Some w4"
      by (auto split: option.splits)
    then have "i4 < length (pending w3)" by (rule deliver_enabled)
    with s3 show ?thesis by simp
  qed simp
  with run3 have "w = w3" by simp
  with s1 s2 s3 have tr: "map outline (trace w) =
           [Requested (PostChunk [1]), Requested (PostChunk [2]),
            Called OnChunkSuccess, Called OnChunkComplete, Requested (PostChunk [3]),
            Called OnChunkSuccess, Called OnChunkComplete, Called OnFinished,
            Called OnChunkSuccess, Called OnChunkComplete, Called OnFinished]"
    by simp
  have "calls OnChunkSuccess (trace w) = 3" "calls OnChunkComplete (trace w) = 3"
    unfolding calls_outline tr by simp_all
  with tr show ?thesis by simp
qed

theorem three_chunks_all_succeed_witness:
  "\<exists>w. run three_chunks [(0, Success (JNum 1)), (1, Success (JNum 2)), (0, Success JNull)]
          (snd (chunkatron three_chunks)) = Some w \<and>
       pending w = [] \<and>
       calls OnChunkSuccess (trace w) = 3 \<and> calls OnChunkComplete (trace w) = 3 \<and>
       map outline (trace w) =
           [Requested (PostChunk [1]), Requested (PostChunk [2]),
            Called OnChunkSuccess, Called OnChunkComplete, Requested (PostChunk [3]),
            Called OnChunkSuccess, Called OnChunkComplete, Called OnFinished,
            Called OnChunkSuccess, Called OnChunkComplete, Called OnFinished]"
proof -
  let ?acts = "[(0, Success (JNum 1)), (1, Success (JNum 2)), (0, Success JNull)]"
  have "\<exists>w. run three_chunks ?acts (snd (chunkatron three_chunks)) = Some w \<and> pending w = []"
    unfolding three_chunks_started snd_conv
    by (simp add: three_started_def deliver_def Let_def successHandler_def
        completeHandler_def andThen_def report_def callback_def downloadChunk.simps ajax_def
        exceeds_def chunk_key_def three_chunks_def all_hooks_def defaultOptions_def)
  then obtain w where w: "run three_chunks ?acts (snd (chunkatron three_chunks)) = Some w"
    "pending w = []" by blast
  have "\<forall>a \<in> set ?acts. \<exists>d. snd a = Success d" by simp
  from three_chunks_all_succeed [OF w(1) this w(2)] w show ?thesis
    by (intro exI [of _ w]) simp
qed

subsection \<open>Giving up on a chunk\<close>

lemma always_failing_started: "chunkatron always_failing = (None, five_started)"
  by (simp add: always_failing_def all_hooks_def defaultOptions_def chunkatron_def
      verifySettings_def start_def initial_def downloadChunk.simps start_loop.simps ajax_def
      exceeds_def chunk_key_def callback_def eval_nat_numeral five_started_def)

lemma five_fail:
  assumes "chunks (self w) = []" and "concurrentDownloads (self w) = 1"
    and "chunkFailures (self w) (Some 5) = cnt" and "pending w = [PostChunk [5]]"
    and "deliver always_failing i (Failure e) w = Some w'"
  shows "(case cnt of None \<Rightarrow> 1 | Some k \<Rightarrow> k + 1) \<le> (2::nat) \<Longrightarrow>
           chunks (self w') = [] \<and> concurrentDownloads (self w') = 1 \<and>
           chunkFailures (self w') (Some 5) = Some (case cnt of None \<Rightarrow> 1 | Some k \<Rightarrow> k + 1) \<and>
           pending w' = [PostChunk [5]] \<and>
           map outline (trace w') = map outline (trace w) @
             [Called OnChunkError, Called OnChunkComplete, Requested (PostChunk [5])] \<and>
           given_up (trace w') = given_up (trace w)"
    and "(case cnt of None \<Rightarrow> 1 | Some k \<Rightarrow> k + 1) > (2::nat) \<Longrightarrow>
           chunks (self w') = [] \<and> concurrentDownloads (self w') = 0 \<and> pending w' = [] \<and>
           map outline (trace w') = map outline (trace w) @
             [Called OnChunkError, Called OnChunkComplete, Called OnChunkGiveUp,
              Called OnFinished] \<and>
           given_up (trace w') = given_up (trace w) @ [[5]]"
proof -
  have h: "onChunkError always_failing = Function" "onChunkComplete always_failing = Function"
    "onChunkGiveUp always_failing = Function" "onFinished always_failing = Function"
    "concurrentDownloadsMax always_failing = 10" "maxDownloadRetries always_failing = 2"
    by (simp_all add: always_failing_def all_hooks_def defaultOptions_def)
  from assms(5) have i: "i < length (pending w)" by (rule deliver_enabled)
  with assms(4) have i0: "i = 0" and c: "pending w ! i = PostChunk [5]" by simp_all
  let ?n = "case cnt of None \<Rightarrow> 1 | Some k \<Rightarrow> k + 1"
  let ?s1 = "(self w)\<lparr>chunkFailures := (chunkFailures (self w))(Some 5 \<mapsto> ?n),
             chunks := [Some [5]]\<rparr>"
  let ?s2 = "?s1\<lparr>concurrentDownloads := 0\<rparr>"
  let ?w2 = "w\<lparr>pending := [], self := ?s2,
          trace := trace w @ [Hook OnChunkError (passed (Some (ErrorParam e))) ?s1,
             Hook OnChunkComplete None ?s2]\<rparr>"
  have d: "w' = report (downloadChunk always_failing ?w2)"
    using assms(5) unfolding deliver_failure [OF h(1,2) i c]
    using assms(1-4) i0 by (simp add: chunk_key_def)
  {
    assume "?n \<le> 2"
    then have "\<not> exceeds (chunkFailures (self ?w2) (chunk_key [5])) (maxDownloadRetries always_failing)"
      by (simp add: exceeds_def chunk_key_def h)
    from downloadChunk_retry [OF _ _ this, where rest = "[]"] d
    show "chunks (self w') = [] \<and> concurrentDownloads (self w') = 1 \<and>
           chunkFailures (self w') (Some 5) = Some ?n \<and>
           pending w' = [PostChunk [5]] \<and>
           map outline (trace w') = map outline (trace w) @
             [Called OnChunkError, Called OnChunkComplete, Requested (PostChunk [5])] \<and>
           given_up (trace w') = given_up (trace w)"
      by (simp add: h report_def ajax_def given_up_append)
  }
  {
    assume big: "?n > 2"
    let ?s3 = "?s2\<lparr>chunks := []\<rparr>"
    let ?w3 = "?w2\<lparr>self := ?s3,
          trace := trace ?w2 @ [Hook OnChunkGiveUp (Some (ChunkParam [5])) ?s3]\<rparr>"
    have "downloadChunk always_failing ?w2 = downloadChunk always_failing ?w3"
      using big downloadChunk_exhausted
        [where w = ?w2 and cfg = always_failing and c = "[5]" and rest = "[]"]
      by (simp add: h chunk_key_def exceeds_def)
    also have "\<dots> = (None, ?w3\<lparr>trace := trace ?w3 @ [Hook OnFinished None (self ?w3)]\<rparr>)"
      using downloadChunk_no_chunk [where w = ?w3 and cfg = always_failing and rest = "[]"]
      by (simp add: h callback_def)
    finally show "chunks (self w') = [] \<and> concurrentDownloads (self w') = 0 \<and> pending w' = [] \<and>
           map outline (trace w') = map outline (trace w) @
             [Called OnChunkError, Called OnChunkComplete, Called OnChunkGiveUp,
              Called OnFinished] \<and>
           given_up (trace w') = given_up (trace w) @ [[5]]"
      using d by (simp add: report_def given_up_append)
  }
qed

lemma always_failing_run:
  assumes "run always_failing acts (snd (chunkatron always_failing)) = Some w"
    and "\<forall>a \<in> set acts. \<exists>e. snd a = Failure e"
    and "pending w = []"
  shows "attempts [5] (trace w) = 3 \<and> calls OnChunkError (trace w) = 3 \<and>
         given_up (trace w) = [[5]] \<and>
         map outline (trace w) =
           Requested (PostChunk [5]) # replicate 9 (Called OnFinished) @
           [Called OnChunkError, Called OnChunkComplete, Requested (PostChunk [5]),
            Called OnChunkError, Called OnChunkComplete, Requested (PostChunk [5]),
            Called OnChunkError, Called OnChunkComplete, Called OnChunkGiveUp,
            Called OnFinished] \<and>
         chunks (self w) = [] \<and> (\<forall>i out. deliver always_failing i out w = None)"
proof -
  have start: "snd (chunkatron always_failing) = five_started"
    by (simp add: always_failing_started)
  have s0: "chunks (self five_started) = []" "concurrentDownloads (self five_started) = 1"
    "chunkFailures (self five_started) (Some 5) = None" "pending five_started = [PostChunk [5]]"
    "map outline (trace five_started) = Requested (PostChunk [5]) # replicate 9 (Called OnFinished)"
    "given_up (trace five_started) = []"
    by (simp_all add: five_started_def eval_nat_numeral)
  obtain i1 e1 r1 where a1: "acts = (i1, Failure e1) # r1"
  proof (cases acts)
    case Nil
    with assms(1,3) start s0(4) show ?thesis by simp
  next
    case (Cons a r)
    with assms(2) that show ?thesis by (cases a) auto
  qed
  from assms(1) a1 start obtain w1 where
    w1: "deliver always_failing i1 (Failure e1) five_started = Some w1"
    and run1: "run always_failing r1 w1 = Some w"
    by (auto split: option.splits)
  have s1: "chunks (self w1) = [] \<and> concurrentDownloads (self w1) = 1 \<and>
           chunkFailures (self w1) (Some 5) = Some 1 \<and> pending w1 = [PostChunk [5]] \<and>
           map outline (trace w1) = map outline (trace five_started) @
             [Called OnChunkError, Called OnChunkComplete, Requested (PostChunk [5])] \<and>
           given_up (trace w1) = given_up (trace five_started)"
    using five_fail(1) [OF s0(1-4) w1] by simp
  obtain i2 e2 r2 where a2: "r1 = (i2, Failure e2) # r2"
  proof (cases r1)
    case Nil
    with run1 assms(3) s1 show ?thesis by auto
  next
    case (Cons a r)
    with assms(2) a1 that show ?thesis by (cases a) auto
  qed
  from run1 a2 obtain w2 where
    w2: "deliver always_failing i2 (Failure e2) w1 = Some w2"
    and run2: "run always_failing r2 w2 = Some w"
    by (auto split: option.splits)
  have s2: "chunks (self w2) = [] \<and> concurrentDownloads (self w2) = 1 \<and>
           chunkFailures (self w2) (Some 5) = Some 2 \<and> pending w2 = [PostChunk [5]] \<and>
           map outline (trace w2) = map outline (trace w1) @
             [Called OnChunkError, Called OnChunkComplete, Requested (PostChunk [5])] \<and>
           given_up (trace w2) = given_up (trace w1)"
    using s1 five_fail(1) [OF _ _ _ _ w2, of "Some 1"] by simp
  obtain i3 e3 r3 where a3: "r2 = (i3, Failure e3) # r3"
  proof (cases r2)
    case Nil
    with run2 assms(3) s2 show ?thesis by auto
  next
    case (Cons a r)
    with assms(2) a1 a2 that show ?thesis by (cases a) auto
  qed
  from run2 a3 obtain w3 where
    w3: "deliver always_failing i3 (Failure e3) w2 = Some w3"
    and run3: "run always_failing r3 w3 = Some w"
    by (auto split: option.splits)
  have s3: "chunks (self w3) = [] \<and> concurrentDownloads (self w3) = 0 \<and> pending w3 = [] \<and>
           map outline (trace w3) = map outline (trace w2) @
             [Called OnChunkError, Called OnChunkComplete, Called OnChunkGiveUp,
              Called OnFinished] \<and>
           given_up (trace w3) = given_up (trace w2) @ [[5]]"
    using s2 five_fail(2) [OF _ _ _ _ w3, of "Some 2"] by simp
  have dead: "deliver always_failing i out w3 = None" for i out
    using s3 by (simp add: deliver_def)
  have "r3 = []"
  proof (cases r3)
    case (Cons a r)
    obtain i4 out4 where "a = (i4, out4)" by (cases a)
    with run3 Cons dead [of i4 out4] show ?thesis by simp
  qed simp
  with run3 have w: "w = w3" by simp
  with s0(5) s1 s2 s3 have tr: "map outline (trace w) =
           Requested (PostChunk [5]) # replicate 9 (Called OnFinished) @
           [Called OnChunkError, Called OnChunkComplete, Requested (PostChunk [5]),
            Called OnChunkError, Called OnChunkComplete, Requested (PostChunk [5]),
            Called OnChunkError, Called OnChunkComplete, Called OnChunkGiveUp,
            Called OnFinished]"
    by simp
  have "attempts [5] (trace w) = 3" "calls OnChunkError (trace w) = 3"
    unfolding attempts_outline calls_outline tr by simp_all
  moreover have "given_up (trace w) = [[5]]" using w s0(6) s1 s2 s3 by simp
  ultimately show ?thesis using tr w s3 dead by simp
qed

text \<open>
  Claim C1 says that giving up on a chunk is always followed at once by an attempt to
  schedule a replacement. Take the chunks \<open>[5]\<close> and \<open>[6]\<close>, one request at a time,
  \<^verbatim>\<open>maxDownloadRetries = 0\<close>, and an \<^verbatim>\<open>onChunkGiveUp\<close> that is neither a function nor null.
  Both requests fail. After the second failure \<^verbatim>\<open>downloadChunk\<close> dequeues \<open>[5]\<close>, whose count
  1 exceeds 0, and \<^verbatim>\<open>callback\<close> throws: the call of \<^verbatim>\<open>downloadChunk\<close> that would have come
  next is never made, no hook is called, and \<open>[6]\<close> stays in the queue with nothing in
  flight.
\<close>

theorem give_up_throws_before_replacement:
  "onChunkGiveUp stalled = Other \<and>
   map_option (chunks \<circ> self)
     (run stalled [(0, Failure ''Not Found''), (0, Failure ''Not Found'')]
        (snd (chunkatron stalled))) = Some [Some [6]] \<and>
   map_option pending
     (run stalled [(0, Failure ''Not Found''), (0, Failure ''Not Found'')]
        (snd (chunkatron stalled))) = Some [] \<and>
   map_option (map outline \<circ> trace)
     (run stalled [(0, Failure ''Not Found''), (0, Failure ''Not Found'')]
        (snd (chunkatron stalled))) =
     Some [Requested (PostChunk [5]), Called OnChunkError, Called OnChunkComplete,
           Requested (PostChunk [6]), Called OnChunkError, Called OnChunkComplete,
           Threw CallbackNotFunction]"
  by (simp add: stalled_def all_hooks_def defaultOptions_def chunkatron_def
      verifySettings_def start_def initial_def deliver_def Let_def errorHandler_def
      completeHandler_def andThen_def report_def callback_def downloadChunk.simps
      start_loop.simps ajax_def exceeds_def chunk_key_def)

text \<open>
  Claim C1, amended. First, the step itself. When \<^verbatim>\<open>downloadChunk\<close> is below the cap and
  dequeues a chunk \<open>c\<close> whose failure count under the key \<open>c[0]\<close> exceeds
  \<^verbatim>\<open>maxDownloadRetries\<close>, it hands \<open>c\<close> to \<^verbatim>\<open>onChunkGiveUp\<close> through \<^verbatim>\<open>callback\<close> once. If
  the hook is a function it is called with \<open>c\<close>; if it is null nothing is called; in both
  cases \<^verbatim>\<open>downloadChunk\<close> then goes on as a fresh call of itself on the rest of the queue,
  so a replacement is attempted at once and \<open>c\<close> is in neither the queue nor a request. If
  the hook is anything else \<^verbatim>\<open>callback\<close> throws: \<open>c\<close> is dropped all the same and no
  replacement is attempted. Second, the scenario: the single chunk \<open>[5]\<close>,
  \<^verbatim>\<open>maxDownloadRetries = 2\<close>, the default cap of 10, every hook a function, and every request
  failing, with whatever error detail. Any such execution, run until nothing is pending,
  makes exactly 3 requests for \<open>[5]\<close>, each followed by a call of \<^verbatim>\<open>onChunkError\<close>, then one
  call of \<^verbatim>\<open>onChunkGiveUp\<close> with \<open>[5]\<close>; after it the queue is empty and no request is left
  to finish, so \<open>[5]\<close> is never requested again.
\<close>

theorem give_up_after_retries:
  "(of_int (concurrentDownloads (self w)) < concurrentDownloadsMax cfg \<and>
    chunks (self w) = Some c # rest \<and>
    chunkFailures (self w) (case c of [] \<Rightarrow> None | x # xs \<Rightarrow> Some x) = Some n \<and>
    of_nat n > maxDownloadRetries cfg \<longrightarrow>
      downloadChunk cfg w =
        (case onChunkGiveUp cfg of
           Function \<Rightarrow>
             downloadChunk cfg
               (w\<lparr>self := (self w)\<lparr>chunks := rest\<rparr>,
                  trace := trace w @
                    [Hook OnChunkGiveUp (Some (ChunkParam c)) ((self w)\<lparr>chunks := rest\<rparr>)]\<rparr>)
         | Null \<Rightarrow> downloadChunk cfg (w\<lparr>self := (self w)\<lparr>chunks := rest\<rparr>\<rparr>)
         | Other \<Rightarrow> (Some CallbackNotFunction, w\<lparr>self := (self w)\<lparr>chunks := rest\<rparr>\<rparr>))) \<and>
   (run always_failing acts (snd (chunkatron always_failing)) = Some v \<and>
    (\<forall>a \<in> set acts. \<exists>e. snd a = Failure e) \<and> pending v = [] \<longrightarrow>
      attempts [5] (trace v) = 3 \<and> calls OnChunkError (trace v) = 3 \<and>
      given_up (trace v) = [[5]] \<and>
      map outline (trace v) =
        Requested (PostChunk [5]) # replicate 9 (Called OnFinished) @
        [Called OnChunkError, Called OnChunkComplete, Requested (PostChunk [5]),
         Called OnChunkError, Called OnChunkComplete, Requested (PostChunk [5]),
         Called OnChunkError, Called OnChunkComplete, Called OnChunkGiveUp,
         Called OnFinished] \<and>
      chunks (self v) = [] \<and> (\<forall>i out. deliver always_failing i out v = None))"
proof -
  have "downloadChunk cfg w =
        (case onChunkGiveUp cfg of
           Function \<Rightarrow>
             downloadChunk cfg
               (w\<lparr>self := (self w)\<lparr>chunks := rest\<rparr>,
                  trace := trace w @
                    [Hook OnChunkGiveUp (Some (ChunkParam c)) ((self w)\<lparr>chunks := rest\<rparr>)]\<rparr>)
         | Null \<Rightarrow> downloadChunk cfg (w\<lparr>self := (self w)\<lparr>chunks := rest\<rparr>\<rparr>)
         | Other \<Rightarrow> (Some CallbackNotFunction, w\<lparr>self := (self w)\<lparr>chunks := rest\<rparr>\<rparr>))"
    if "of_int (concurrentDownloads (self w)) < concurrentDownloadsMax cfg"
      and "chunks (self w) = Some c # rest"
      and "chunkFailures (self w) (case c of [] \<Rightarrow> None | x # xs \<Rightarrow> Some x) = Some n"
      and "of_nat n > maxDownloadRetries cfg"
  proof (rule downloadChunk_exhausted)
    from that(1) show "\<not> concurrentDownloadsMax cfg \<le> of_int (concurrentDownloads (self w))"
      by simp
    from that(2) show "chunks (self w) = Some c # rest" .
    from that(3,4)
    show "exceeds (chunkFailures (self w) (chunk_key c)) (maxDownloadRetries cfg)"
      by (simp add: exceeds_def chunk_key_def)
  qed
  with always_failing_run [of acts v] show ?thesis by blast
qed

theorem give_up_after_retries_witness:
  "(\<exists>v. run always_failing
          [(0, Failure ''Not Found''), (0, Failure ''Gateway Timeout''), (0, Failure [])]
          (snd (chunkatron always_failing)) = Some v \<and>
        pending v = [] \<and> attempts [5] (trace v) = 3 \<and> calls OnChunkError (trace v) = 3 \<and>
        given_up (trace v) = [[5]] \<and> chunks (self v) = []) \<and>
   downloadChunk always_failing
     \<lparr>self = \<lparr>chunks = [Some [5, 3]], concurrentDownloads = 0,
              chunkFailures = [Some 5 \<mapsto> 3]\<rparr>,
      pending = [], trace = []\<rparr> =
     (None,
      \<lparr>self = \<lparr>chunks = [], concurrentDownloads = 0, chunkFailures = [Some 5 \<mapsto> 3]\<rparr>,
       pending = [],
       trace = [Hook OnChunkGiveUp (Some (ChunkParam [5, 3]))
                  \<lparr>chunks = [], concurrentDownloads = 0, chunkFailures = [Some 5 \<mapsto> 3]\<rparr>,
                Hook OnFinished None
                  \<lparr>chunks = [], concurrentDownloads = 0, chunkFailures = [Some 5 \<mapsto> 3]\<rparr>]\<rparr>)"
proof -
  let ?acts = "[(0, Failure ''Not Found''), (0, Failure ''Gateway Timeout''), (0, Failure [])]"
  let ?w = "\<lparr>self = \<lparr>chunks = [Some [5, 3]], concurrentDownloads = 0,
              chunkFailures = [Some 5 \<mapsto> 3]\<rparr>,
      pending = [], trace = []\<rparr>"
  have h: "onChunkError always_failing = Function" "onChunkComplete always_failing = Function"
    "onChunkGiveUp always_failing = Function" "onFinished always_failing = Function"
    "concurrentDownloadsMax always_failing = 10" "maxDownloadRetries always_failing = 2"
    by (simp_all add: always_failing_def all_hooks_def defaultOptions_def)
  have "\<exists>v. run always_failing ?acts (snd (chunkatron always_failing)) = Some v \<and> pending v = []"
    unfolding always_failing_started snd_conv
    by (simp add: five_started_def deliver_def Let_def errorHandler_def
        completeHandler_def andThen_def report_def callback_def downloadChunk.simps ajax_def
        exceeds_def chunk_key_def h)
  then obtain v where v: "run always_failing ?acts (snd (chunkatron always_failing)) = Some v"
    "pending v = []" by blast
  have f: "\<forall>a \<in> set ?acts. \<exists>e. snd a = Failure e" by simp
  note g = give_up_after_retries
    [where w = ?w and cfg = always_failing and c = "[5, 3]" and rest = "[]" and n = 3
       and acts = ?acts and v = v]
  have 1: "\<exists>v. run always_failing ?acts (snd (chunkatron always_failing)) = Some v \<and>
        pending v = [] \<and> attempts [5] (trace v) = 3 \<and> calls OnChunkError (trace v) = 3 \<and>
        given_up (trace v) = [[5]] \<and> chunks (self v) = []"
    using g [THEN conjunct2] v f by (intro exI [of _ v]) simp
  have "downloadChunk always_failing ?w =
      downloadChunk always_failing
          (?w\<lparr>self := (self ?w)\<lparr>chunks := []\<rparr>,
             trace := trace ?w @
               [Hook OnChunkGiveUp (Some (ChunkParam [5, 3])) ((self ?w)\<lparr>chunks := []\<rparr>)]\<rparr>)"
    using g [THEN conjunct1] by (simp add: h)
  then have 2: "downloadChunk always_failing ?w =
     (None,
      \<lparr>self = \<lparr>chunks = [], concurrentDownloads = 0, chunkFailures = [Some 5 \<mapsto> 3]\<rparr>,
       pending = [],
       trace = [Hook OnChunkGiveUp (Some (ChunkParam [5, 3]))
                  \<lparr>chunks = [], concurrentDownloads = 0, chunkFailures = [Some 5 \<mapsto> 3]\<rparr>,
                Hook OnFinished None
                  \<lparr>chunks = [], concurrentDownloads = 0, chunkFailures = [Some 5 \<mapsto> 3]\<rparr>]\<rparr>)"
    by (simp add: downloadChunk.simps h callback_def)
  from 1 2 show ?thesis by (rule conjI)
qed

subsection \<open>One failure counter for all chunks with the same first element\<close>

lemma errorHandler_failures:
  "chunkFailures (self (snd (errorHandler cfg c err w))) =
     (chunkFailures (self w))
       (chunk_key c \<mapsto> (case chunkFailures (self w) (chunk_key c) of
                             None \<Rightarrow> 1 | Some n \<Rightarrow> n + 1))"
  by (simp add: errorHandler_def Let_def)

lemma pooled_run:
  "\<exists>w. run pooled [(0, Failure ''Not Found''), (0, Failure ''Not Found'')]
          (snd (chunkatron pooled)) = Some w \<and>
       pending w = [] \<and> chunks (self w) = [] \<and>
       map outline (trace w) =
         [Requested (PostChunk [2, 1]),
          Called OnChunkError, Called OnChunkComplete, Requested (PostChunk [2, 3]),
          Called OnChunkError, Called OnChunkComplete,
          Called OnChunkGiveUp, Called OnChunkGiveUp, Called OnFinished] \<and>
       given_up (trace w) = [[2, 1], [2, 3]]"
  by (simp add: pooled_def all_hooks_def defaultOptions_def chunkatron_def verifySettings_def
      start_def initial_def deliver_def Let_def errorHandler_def completeHandler_def andThen_def
      report_def callback_def downloadChunk.simps start_loop.simps ajax_def exceeds_def
      chunk_key_def)

text \<open>
  Claim C9. The failure counters are keyed by the first element of a chunk. An error on a
  chunk that begins with \<open>x\<close> raises the counter of \<open>x\<close> and no counter of another first
  element; and once the counter of \<open>x\<close> exceeds \<^verbatim>\<open>maxDownloadRetries\<close>, a \<^verbatim>\<open>downloadChunk\<close>
  that dequeues any chunk \<open>d\<close> beginning with \<open>x\<close> takes the give-up branch for \<open>d\<close>. So there
  is an execution in which a chunk is given up although it failed fewer than
  \<open>maxDownloadRetries + 1\<close> times: with the chunks \<open>[2,1]\<close> and \<open>[2,3]\<close>, one request at a
  time and \<^verbatim>\<open>maxDownloadRetries = 1\<close>, each chunk is requested once, fails once, and both are
  given up.
\<close>

theorem failures_pooled_by_first_element:
  "chunkFailures (self (snd (errorHandler cfg (x # c') err w))) (Some x) =
     Some (case chunkFailures (self w) (Some x) of None \<Rightarrow> 1 | Some n \<Rightarrow> n + 1) \<and>
   (y \<noteq> x \<longrightarrow>
      chunkFailures (self (snd (errorHandler cfg (x # c') err w))) (Some y) =
        chunkFailures (self w) (Some y)) \<and>
   (maxDownloadRetries cfg <
      of_nat (case chunkFailures (self w) (Some x) of None \<Rightarrow> 1 | Some n \<Rightarrow> n + 1) \<and>
    chunkFailures (self v) = chunkFailures (self (snd (errorHandler cfg (x # c') err w))) \<and>
    of_int (concurrentDownloads (self v)) < concurrentDownloadsMax cfg \<and>
    chunks (self v) = Some (x # d') # rest \<longrightarrow>
      downloadChunk cfg v =
        (case onChunkGiveUp cfg of
           Function \<Rightarrow>
             downloadChunk cfg
               (v\<lparr>self := (self v)\<lparr>chunks := rest\<rparr>,
                  trace := trace v @
                    [Hook OnChunkGiveUp (Some (ChunkParam (x # d')))
                       ((self v)\<lparr>chunks := rest\<rparr>)]\<rparr>)
         | Null \<Rightarrow> downloadChunk cfg (v\<lparr>self := (self v)\<lparr>chunks := rest\<rparr>\<rparr>)
         | Other \<Rightarrow> (Some CallbackNotFunction, v\<lparr>self := (self v)\<lparr>chunks := rest\<rparr>\<rparr>))) \<and>
   (\<exists>acts u. run pooled acts (snd (chunkatron pooled)) = Some u \<and>
      given_up (trace u) = [[2, 1], [2, 3]] \<and>
      attempts [2, 1] (trace u) = 1 \<and> attempts [2, 3] (trace u) = 1 \<and>
      calls OnChunkError (trace u) = 2 \<and> maxDownloadRetries pooled + 1 = 2)"
proof -
  have 0: "chunkFailures (self (snd (errorHandler cfg (x # c') err w))) (Some x) =
     Some (case chunkFailures (self w) (Some x) of None \<Rightarrow> 1 | Some n \<Rightarrow> n + 1)"
    by (simp add: errorHandler_failures chunk_key_def)
  have 1: "chunkFailures (self (snd (errorHandler cfg (x # c') err w))) (Some y) =
        chunkFailures (self w) (Some y)" if "y \<noteq> x"
    using that by (simp add: errorHandler_failures chunk_key_def)
  have 2: "downloadChunk cfg v =
        (case onChunkGiveUp cfg of
           Function \<Rightarrow>
             downloadChunk cfg
               (v\<lparr>self := (self v)\<lparr>chunks := rest\<rparr>,
                  trace := trace v @
                    [Hook OnChunkGiveUp (Some (ChunkParam (x # d')))
                       ((self v)\<lparr>chunks := rest\<rparr>)]\<rparr>)
         | Null \<Rightarrow> downloadChunk cfg (v\<lparr>self := (self v)\<lparr>chunks := rest\<rparr>\<rparr>)
         | Other \<Rightarrow> (Some CallbackNotFunction, v\<lparr>self := (self v)\<lparr>chunks := rest\<rparr>\<rparr>))"
    if n: "maxDownloadRetries cfg <
        of_nat (case chunkFailures (self w) (Some x) of None \<Rightarrow> 1 | Some n \<Rightarrow> n + 1)"
      and f: "chunkFailures (self v) = chunkFailures (self (snd (errorHandler cfg (x # c') err w)))"
      and free: "of_int (concurrentDownloads (self v)) < concurrentDownloadsMax cfg"
      and q: "chunks (self v) = Some (x # d') # rest"
  proof (rule downloadChunk_exhausted)
    from free show "\<not> concurrentDownloadsMax cfg \<le> of_int (concurrentDownloads (self v))"
      by simp
    from q show "chunks (self v) = Some (x # d') # rest" .
    from f 0 have "chunkFailures (self v) (Some x) =
        Some (case chunkFailures (self w) (Some x) of None \<Rightarrow> 1 | Some n \<Rightarrow> n + 1)"
      by simp
    with n show "exceeds (chunkFailures (self v) (chunk_key (x # d'))) (maxDownloadRetries cfg)"
      by (simp add: exceeds_def chunk_key_def)
  qed
  obtain u where u: "run pooled [(0, Failure ''Not Found''), (0, Failure ''Not Found'')]
          (snd (chunkatron pooled)) = Some u"
    "map outline (trace u) =
         [Requested (PostChunk [2, 1]),
          Called OnChunkError, Called OnChunkComplete, Requested (PostChunk [2, 3]),
          Called OnChunkError, Called OnChunkComplete,
          Called OnChunkGiveUp, Called OnChunkGiveUp, Called OnFinished]"
    "given_up (trace u) = [[2, 1], [2, 3]]"
    using pooled_run by auto
  have "attempts [2, 1] (trace u) = 1" "attempts [2, 3] (trace u) = 1"
    "calls OnChunkError (trace u) = 2"
    unfolding attempts_outline calls_outline u(2) by simp_all
  moreover have "maxDownloadRetries pooled + 1 = 2"
    by (simp add: pooled_def all_hooks_def defaultOptions_def)
  ultimately have 3: "\<exists>acts u. run pooled acts (snd (chunkatron pooled)) = Some u \<and>
      given_up (trace u) = [[2, 1], [2, 3]] \<and>
      attempts [2, 1] (trace u) = 1 \<and> attempts [2, 3] (trace u) = 1 \<and>
      calls OnChunkError (trace u) = 2 \<and> maxDownloadRetries pooled + 1 = 2"
    using u(1,3) by blast
  from 0 1 2 3 show ?thesis by blast
qed

theorem failures_pooled_by_first_element_witness:
  "chunkFailures (self (snd (errorHandler pooled [2, 1] ''Not Found''
      \<lparr>self = \<lparr>chunks = [], concurrentDownloads = 1,
               chunkFailures = [Some 2 \<mapsto> 1, Some 1 \<mapsto> 0]\<rparr>,
       pending = [], trace = []\<rparr>))) (Some 2) = Some 2 \<and>
   chunkFailures (self (snd (errorHandler pooled [2, 1] ''Not Found''
      \<lparr>self = \<lparr>chunks = [], concurrentDownloads = 1,
               chunkFailures = [Some 2 \<mapsto> 1, Some 1 \<mapsto> 0]\<rparr>,
       pending = [], trace = []\<rparr>))) (Some 1) = Some 0 \<and>
   downloadChunk pooled
     \<lparr>self = \<lparr>chunks = [Some [2, 3]], concurrentDownloads = 0,
              chunkFailures = [Some 2 \<mapsto> 2, Some 1 \<mapsto> 0]\<rparr>,
      pending = [], trace = []\<rparr> =
     (None,
      \<lparr>self = \<lparr>chunks = [], concurrentDownloads = 0,
                chunkFailures = [Some 2 \<mapsto> 2, Some 1 \<mapsto> 0]\<rparr>,
       pending = [],
       trace = [Hook OnChunkGiveUp (Some (ChunkParam [2, 3]))
                  \<lparr>chunks = [], concurrentDownloads = 0,
                   chunkFailures = [Some 2 \<mapsto> 2, Some 1 \<mapsto> 0]\<rparr>,
                Hook OnFinished None
                  \<lparr>chunks = [], concurrentDownloads = 0,
                   chunkFailures = [Some 2 \<mapsto> 2, Some 1 \<mapsto> 0]\<rparr>]\<rparr>)"
proof -
  let ?w = "\<lparr>self = \<lparr>chunks = [], concurrentDownloads = 1,
               chunkFailures = [Some 2 \<mapsto> 1, Some 1 \<mapsto> 0]\<rparr>,
       pending = [], trace = []\<rparr>"
  let ?v = "\<lparr>self = \<lparr>chunks = [Some [2, 3]], concurrentDownloads = 0,
              chunkFailures = [Some 2 \<mapsto> 2, Some 1 \<mapsto> 0]\<rparr>,
      pending = [], trace = []\<rparr>"
  have h: "onChunkGiveUp pooled = Function" "onFinished pooled = Function"
    "concurrentDownloadsMax pooled = 1" "maxDownloadRetries pooled = 1"
    by (simp_all add: pooled_def all_hooks_def defaultOptions_def)
  note t = failures_pooled_by_first_element
    [where x = 2 and c' = "[1]" and d' = "[3]" and y = 1 and cfg = pooled and w = ?w
       and v = ?v and err = "''Not Found''" and rest = "[]"]
  have a: "chunkFailures (self (snd (errorHandler pooled [2, 1] ''Not Found'' ?w))) (Some 2) = Some 2"
    using t [THEN conjunct1] by (simp add: numeral_2_eq_2)
  have b: "chunkFailures (self (snd (errorHandler pooled [2, 1] ''Not Found'' ?w))) (Some 1) = Some 0"
    using t [THEN conjunct2, THEN conjunct1] by simp
  have f: "chunkFailures (self ?v) =
      chunkFailures (self (snd (errorHandler pooled [2, 1] ''Not Found'' ?w)))"
    by (rule ext) (simp add: errorHandler_failures chunk_key_def numeral_2_eq_2)
  have "downloadChunk pooled ?v =
      downloadChunk pooled
          (?v\<lparr>self := (self ?v)\<lparr>chunks := []\<rparr>,
             trace := trace ?v @
               [Hook OnChunkGiveUp (Some (ChunkParam [2, 3])) ((self ?v)\<lparr>chunks := []\<rparr>)]\<rparr>)"
    using t [THEN conjunct2, THEN conjunct2, THEN conjunct1] f
    by (simp add: h)
  then have "downloadChunk pooled ?v =
     (None,
      \<lparr>self = \<lparr>chunks = [], concurrentDownloads = 0,
                chunkFailures = [Some 2 \<mapsto> 2, Some 1 \<mapsto> 0]\<rparr>,
       pending = [],
       trace = [Hook OnChunkGiveUp (Some (ChunkParam [2, 3]))
                  \<lparr>chunks = [], concurrentDownloads = 0,
                   chunkFailures = [Some 2 \<mapsto> 2, Some 1 \<mapsto> 0]\<rparr>,
                Hook OnFinished None
                  \<lparr>chunks = [], concurrentDownloads = 0,
                   chunkFailures = [Some 2 \<mapsto> 2, Some 1 \<mapsto> 0]\<rparr>]\<rparr>)"
    by (simp add: downloadChunk.simps h callback_def)
  with a b show ?thesis by blast
qed

subsection \<open>Which failures the caller sees\<close>

text \<open>
  Claim C8 says that no failure is silent, also when the optional hooks are omitted. Take
  the single chunk \<open>[5]\<close>, one request at a time, \<^verbatim>\<open>maxDownloadRetries = 0\<close>, and of the hooks
  only the required \<^verbatim>\<open>onChunkComplete\<close>. The request fails; \<^verbatim>\<open>complete\<close> calls
  \<^verbatim>\<open>onChunkComplete\<close> while \<open>[5]\<close> is back in the queue, and then \<^verbatim>\<open>downloadChunk\<close> dequeues
  \<open>[5]\<close>, finds its count above the ceiling and drops it: that call returns normally and adds
  nothing to the trace. The run ends with \<open>[5]\<close> abandoned, no hook told so and no error
  raised.
\<close>

theorem exhaustion_is_silent:
  "onChunkGiveUp silent = Null \<and> fst (chunkatron silent) = None \<and>
   run silent [(0, Failure ''Not Found'')] (snd (chunkatron silent)) =
     Some \<lparr>self = \<lparr>chunks = [], concurrentDownloads = 0, chunkFailures = [Some 5 \<mapsto> 1]\<rparr>,
           pending = [],
           trace = [Ajax (PostChunk [5]),
                    Hook OnChunkComplete None
                      \<lparr>chunks = [Some [5]], concurrentDownloads = 0,
                       chunkFailures = [Some 5 \<mapsto> 1]\<rparr>]\<rparr> \<and>
   downloadChunk silent
     \<lparr>self = \<lparr>chunks = [Some [5]], concurrentDownloads = 0, chunkFailures = [Some 5 \<mapsto> 1]\<rparr>,
      pending = [],
      trace = [Ajax (PostChunk [5]),
               Hook OnChunkComplete None
                 \<lparr>chunks = [Some [5]], concurrentDownloads = 0,
                  chunkFailures = [Some 5 \<mapsto> 1]\<rparr>]\<rparr> =
     (None,
      \<lparr>self = \<lparr>chunks = [], concurrentDownloads = 0, chunkFailures = [Some 5 \<mapsto> 1]\<rparr>,
       pending = [],
       trace = [Ajax (PostChunk [5]),
                Hook OnChunkComplete None
                  \<lparr>chunks = [Some [5]], concurrentDownloads = 0,
                   chunkFailures = [Some 5 \<mapsto> 1]\<rparr>]\<rparr>)"
  by (simp add: silent_def defaultOptions_def chunkatron_def verifySettings_def
      start_def initial_def deliver_def Let_def errorHandler_def completeHandler_def andThen_def
      report_def callback_def downloadChunk.simps start_loop.simps ajax_def exceeds_def
      chunk_key_def)

lemma report_extends: "\<exists>evs. trace (report r) = trace (snd r) @ evs"
  by (cases r) (simp add: report_def split: option.splits)

lemma complete_dispatch:
  "\<exists>evs. trace (report (completeHandler cfg w)) =
     trace w @
       (case onChunkComplete cfg of
          Function \<Rightarrow>
            Hook OnChunkComplete None
              ((self w)\<lparr>concurrentDownloads := concurrentDownloads (self w) - 1\<rparr>) # evs
        | Null \<Rightarrow> evs
        | Other \<Rightarrow> [Uncaught CallbackNotFunction])"
proof (cases "onChunkComplete cfg")
  case Function
  let ?w3 = "w\<lparr>self := (self w)\<lparr>concurrentDownloads := concurrentDownloads (self w) - 1\<rparr>,
               trace := trace w @
                 [Hook OnChunkComplete None
                    ((self w)\<lparr>concurrentDownloads := concurrentDownloads (self w) - 1\<rparr>)]\<rparr>"
  have c: "completeHandler cfg w = downloadChunk cfg ?w3"
    using Function by (simp add: completeHandler_result)
  obtain evs2 where e2: "trace (snd (downloadChunk cfg ?w3)) = trace ?w3 @ evs2"
    using grows_extends [OF downloadChunk_grows] by blast
  obtain evs1 where "trace (report (downloadChunk cfg ?w3)) =
      trace (snd (downloadChunk cfg ?w3)) @ evs1"
    using report_extends by blast
  with e2 c Function show ?thesis by simp
next
  case Null
  let ?w3 = "w\<lparr>self := (self w)\<lparr>concurrentDownloads := concurrentDownloads (self w) - 1\<rparr>\<rparr>"
  have c: "completeHandler cfg w = downloadChunk cfg ?w3"
    using Null by (simp add: completeHandler_result)
  obtain evs2 where e2: "trace (snd (downloadChunk cfg ?w3)) = trace ?w3 @ evs2"
    using grows_extends [OF downloadChunk_grows] by blast
  obtain evs1 where "trace (report (downloadChunk cfg ?w3)) =
      trace (snd (downloadChunk cfg ?w3)) @ evs1"
    using report_extends by blast
  with e2 c Null show ?thesis by simp
next
  case Other
  then show ?thesis by (simp add: completeHandler_result report_def)
qed

lemma failure_dispatch:
  fixes cfg :: settings and w :: world and c :: chunk and err :: string
  assumes "i < length (pending w)" and "pending w ! i = PostChunk c"
  defines "s1 \<equiv> (self w)
      \<lparr>chunkFailures := (chunkFailures (self w))
         (chunk_key c \<mapsto> (case chunkFailures (self w) (chunk_key c) of
                               None \<Rightarrow> 1 | Some n \<Rightarrow> n + 1)),
       chunks := chunks (self w) @ [Some c]\<rparr>"
  shows "\<exists>w' evs. deliver cfg i (Failure err) w = Some w' \<and>
     trace w' = trace w @
       (case onChunkError cfg of
          Function \<Rightarrow> [Hook OnChunkError (if err = [] then None else Some (ErrorParam err)) s1]
        | Null \<Rightarrow> []
        | Other \<Rightarrow> [Uncaught CallbackNotFunction]) @
       (if onChunkError cfg = Other then []
        else case onChunkComplete cfg of
          Function \<Rightarrow>
            Hook OnChunkComplete None
              (s1\<lparr>concurrentDownloads := concurrentDownloads (self w) - 1\<rparr>) # evs
        | Null \<Rightarrow> evs
        | Other \<Rightarrow> [Uncaught CallbackNotFunction])"
proof -
  let ?w0 = "w\<lparr>pending := take i (pending w) @ drop (Suc i) (pending w)\<rparr>"
  have d: "deliver cfg i (Failure err) w =
      Some (report (andThen (errorHandler cfg c err ?w0) (completeHandler cfg)))"
    using assms(1,2) by (simp add: deliver_def)
  show ?thesis
  proof (cases "onChunkError cfg")
    case Other
    then have "errorHandler cfg c err ?w0 = (Some CallbackNotFunction, ?w0\<lparr>self := s1\<rparr>)"
      by (simp add: errorHandler_result callback_def s1_def)
    then have "trace (report (andThen (errorHandler cfg c err ?w0) (completeHandler cfg))) =
        trace w @ [Uncaught CallbackNotFunction]"
      by (simp add: andThen_def report_def)
    with d Other show ?thesis by simp
  next
    case Function
    let ?w1 = "?w0\<lparr>self := s1,
        trace := trace w @
          [Hook OnChunkError (if err = [] then None else Some (ErrorParam err)) s1]\<rparr>"
    have "errorHandler cfg c err ?w0 = (None, ?w1)"
      using Function by (simp add: errorHandler_result callback_def s1_def)
    then have r: "report (andThen (errorHandler cfg c err ?w0) (completeHandler cfg)) =
        report (completeHandler cfg ?w1)"
      by (simp add: andThen_def)
    obtain evs where "trace (report (completeHandler cfg ?w1)) =
       trace ?w1 @
       (case onChunkComplete cfg of
          Function \<Rightarrow>
            Hook OnChunkComplete None
              ((self ?w1)\<lparr>concurrentDownloads := concurrentDownloads (self ?w1) - 1\<rparr>) # evs
        | Null \<Rightarrow> evs
        | Other \<Rightarrow> [Uncaught CallbackNotFunction])"
      using complete_dispatch [of cfg ?w1] by blast
    then have "trace (report (completeHandler cfg ?w1)) =
       trace w @
       [Hook OnChunkError (if err = [] then None else Some (ErrorParam err)) s1] @
       (case onChunkComplete cfg of
          Function \<Rightarrow>
            Hook OnChunkComplete None
              (s1\<lparr>concurrentDownloads := concurrentDownloads (self w) - 1\<rparr>) # evs
        | Null \<Rightarrow> evs
        | Other \<Rightarrow> [Uncaught CallbackNotFunction])"
      by (simp add: s1_def split: hook.splits)
    with d r Function show ?thesis
      by (intro exI [of _ "report (completeHandler cfg ?w1)"] exI [of _ evs]) simp
  next
    case Null
    let ?w1 = "?w0\<lparr>self := s1\<rparr>"
    have "errorHandler cfg c err ?w0 = (None, ?w1)"
      using Null by (simp add: errorHandler_result callback_def s1_def)
    then have r: "report (andThen (errorHandler cfg c err ?w0) (completeHandler cfg)) =
        report (completeHandler cfg ?w1)"
      by (simp add: andThen_def)
    obtain evs where "trace (report (completeHandler cfg ?w1)) =
       trace ?w1 @
       (case onChunkComplete cfg of
          Function \<Rightarrow>
            Hook OnChunkComplete None
              ((self ?w1)\<lparr>concurrentDownloads := concurrentDownloads (self ?w1) - 1\<rparr>) # evs
        | Null \<Rightarrow> evs
        | Other \<Rightarrow> [Uncaught CallbackNotFunction])"
      using complete_dispatch [of cfg ?w1] by blast
    then have "trace (report (completeHandler cfg ?w1)) =
       trace w @
       (case onChunkComplete cfg of
          Function \<Rightarrow>
            Hook OnChunkComplete None
              (s1\<lparr>concurrentDownloads := concurrentDownloads (self w) - 1\<rparr>) # evs
        | Null \<Rightarrow> evs
        | Other \<Rightarrow> [Uncaught CallbackNotFunction])"
      by (simp add: s1_def split: hook.splits)
    with d r Null show ?thesis
      by (intro exI [of _ "report (completeHandler cfg ?w1)"] exI [of _ evs]) simp
  qed
qed

lemma chunk_list_failure:
  assumes "verifySettings cfg = Inr ()" and "settings_chunks cfg = None"
    and "chunksUrl cfg = Some u"
  shows "chunkatron cfg = (None, ajax (GetChunks u) initial) \<and>
         deliver cfg 0 NoChunks (ajax (GetChunks u) initial) =
           Some (initial\<lparr>trace := [Ajax (GetChunks u), Uncaught (ChunksDownloadFailed u)]\<rparr>) \<and>
         (\<forall>i out. deliver cfg i out
            (initial\<lparr>trace := [Ajax (GetChunks u), Uncaught (ChunksDownloadFailed u)]\<rparr>) = None)"
  using assms
  by (simp add: chunkatron_def deliver_def ajax_def initial_def report_def)

text \<open>
  Claim C8, amended. A failure reaches the caller through the hook meant for it only when
  that hook is set, and retry exhaustion is silent when \<^verbatim>\<open>onChunkGiveUp\<close> is omitted:
  \<^item> a configuration that fails \<^verbatim>\<open>verifySettings\<close> makes the constructor throw, with nothing
    started;
  \<^item> a failed chunk request is counted under the first element of the chunk and the chunk
    queued again; then \<^verbatim>\<open>onChunkError\<close> is called when it is a function (with the detail, or
    with no argument when the detail is empty), skipped when it is null, and \<^verbatim>\<open>callback\<close>
    throws when it is anything else, which ends the dispatch: \<^verbatim>\<open>complete\<close> does not run.
    Unless that has happened, \<^verbatim>\<open>complete\<close> lowers the counter and then \<^verbatim>\<open>onChunkComplete\<close>
    is called when it is a function, skipped when it is null, and \<^verbatim>\<open>callback\<close> throws when
    it is anything else. So with \<^verbatim>\<open>onChunkError\<close> null and \<^verbatim>\<open>onChunkComplete\<close> null the
    failure itself adds no event;
  \<^item> a chunk over the retry ceiling is handed to \<^verbatim>\<open>onChunkGiveUp\<close> when that is a function,
    dropped without a trace when it is null, and makes \<^verbatim>\<open>callback\<close> throw otherwise;
  \<^item> a failed chunk-list request throws from its error handler, after the constructor has
    returned; nothing has been started, nothing is pending, and no further step exists:
    there is no retry.
\<close>

theorem failures_reported_if_hooked:
  "(verifySettings cfg \<noteq> Inr () \<longrightarrow>
      (\<exists>e. verifySettings cfg = Inl e \<and> fst (chunkatron cfg) = Some e) \<and>
      snd (chunkatron cfg) = initial) \<and>
   (i < length (pending w) \<and> pending w ! i = PostChunk c \<longrightarrow>
      (let k = (case c of [] \<Rightarrow> None | x # xs \<Rightarrow> Some x);
           s1 = (self w)
             \<lparr>chunkFailures := (chunkFailures (self w))
                (k \<mapsto> (case chunkFailures (self w) k of None \<Rightarrow> 1 | Some n \<Rightarrow> n + 1)),
              chunks := chunks (self w) @ [Some c]\<rparr>;
           s2 = s1\<lparr>concurrentDownloads := concurrentDownloads (self w) - 1\<rparr>
       in \<exists>w' evs. deliver cfg i (Failure err) w = Some w' \<and>
            trace w' = trace w @
              (case onChunkError cfg of
                 Function \<Rightarrow>
                   [Hook OnChunkError (if err = [] then None else Some (ErrorParam err)) s1]
               | Null \<Rightarrow> []
               | Other \<Rightarrow> [Uncaught CallbackNotFunction]) @
              (if onChunkError cfg = Other then []
               else case onChunkComplete cfg of
                 Function \<Rightarrow> Hook OnChunkComplete None s2 # evs
               | Null \<Rightarrow> evs
               | Other \<Rightarrow> [Uncaught CallbackNotFunction]))) \<and>
   (of_int (concurrentDownloads (self v)) < concurrentDownloadsMax cfg \<and>
    chunks (self v) = Some d # rest \<and>
    chunkFailures (self v) (case d of [] \<Rightarrow> None | x # xs \<Rightarrow> Some x) = Some n \<and>
    of_nat n > maxDownloadRetries cfg \<longrightarrow>
      downloadChunk cfg v =
        (case onChunkGiveUp cfg of
           Function \<Rightarrow>
             downloadChunk cfg
               (v\<lparr>self := (self v)\<lparr>chunks := rest\<rparr>,
                  trace := trace v @
                    [Hook OnChunkGiveUp (Some (ChunkParam d)) ((self v)\<lparr>chunks := rest\<rparr>)]\<rparr>)
         | Null \<Rightarrow> downloadChunk cfg (v\<lparr>self := (self v)\<lparr>chunks := rest\<rparr>\<rparr>)
         | Other \<Rightarrow> (Some CallbackNotFunction, v\<lparr>self := (self v)\<lparr>chunks := rest\<rparr>\<rparr>))) \<and>
   (verifySettings cfg = Inr () \<and> settings_chunks cfg = None \<and> chunksUrl cfg = Some u \<longrightarrow>
      chunkatron cfg = (None, ajax (GetChunks u) initial) \<and>
      deliver cfg 0 NoChunks (ajax (GetChunks u) initial) =
        Some (initial\<lparr>trace := [Ajax (GetChunks u), Uncaught (ChunksDownloadFailed u)]\<rparr>) \<and>
      (\<forall>j out. deliver cfg j out
         (initial\<lparr>trace := [Ajax (GetChunks u), Uncaught (ChunksDownloadFailed u)]\<rparr>) = None))"
proof -
  have a: "(\<exists>e. verifySettings cfg = Inl e \<and> fst (chunkatron cfg) = Some e) \<and>
      snd (chunkatron cfg) = initial"
    if "verifySettings cfg \<noteq> Inr ()"
    using chunkatron_invalid [OF that] by auto
  have k: "chunk_key c = (case c of [] \<Rightarrow> None | x # xs \<Rightarrow> Some x)"
    by (simp add: chunk_key_def)
  have b: "(let k = (case c of [] \<Rightarrow> None | x # xs \<Rightarrow> Some x);
           s1 = (self w)
             \<lparr>chunkFailures := (chunkFailures (self w))
                (k \<mapsto> (case chunkFailures (self w) k of None \<Rightarrow> 1 | Some n \<Rightarrow> n + 1)),
              chunks := chunks (self w) @ [Some c]\<rparr>;
           s2 = s1\<lparr>concurrentDownloads := concurrentDownloads (self w) - 1\<rparr>
       in \<exists>w' evs. deliver cfg i (Failure err) w = Some w' \<and>
            trace w' = trace w @
              (case onChunkError cfg of
                 Function \<Rightarrow>
                   [Hook OnChunkError (if err = [] then None else Some (ErrorParam err)) s1]
               | Null \<Rightarrow> []
               | Other \<Rightarrow> [Uncaught CallbackNotFunction]) @
              (if onChunkError cfg = Other then []
               else case onChunkComplete cfg of
                 Function \<Rightarrow> Hook OnChunkComplete None s2 # evs
               | Null \<Rightarrow> evs
               | Other \<Rightarrow> [Uncaught CallbackNotFunction]))"
    if "i < length (pending w)" and "pending w ! i = PostChunk c"
    using failure_dispatch [OF that, of cfg err] unfolding Let_def k .
  have c: "downloadChunk cfg v =
        (case onChunkGiveUp cfg of
           Function \<Rightarrow>
             downloadChunk cfg
               (v\<lparr>self := (self v)\<lparr>chunks := rest\<rparr>,
                  trace := trace v @
                    [Hook OnChunkGiveUp (Some (ChunkParam d)) ((self v)\<lparr>chunks := rest\<rparr>)]\<rparr>)
         | Null \<Rightarrow> downloadChunk cfg (v\<lparr>self := (self v)\<lparr>chunks := rest\<rparr>\<rparr>)
         | Other \<Rightarrow> (Some CallbackNotFunction, v\<lparr>self := (self v)\<lparr>chunks := rest\<rparr>\<rparr>))"
    if "of_int (concurrentDownloads (self v)) < concurrentDownloadsMax cfg"
      and "chunks (self v) = Some d # rest"
      and "chunkFailures (self v) (case d of [] \<Rightarrow> None | x # xs \<Rightarrow> Some x) = Some n"
      and "of_nat n > maxDownloadRetries cfg"
  proof (rule downloadChunk_exhausted)
    from that(1) show "\<not> concurrentDownloadsMax cfg \<le> of_int (concurrentDownloads (self v))"
      by simp
    from that(2) show "chunks (self v) = Some d # rest" .
    from that(3,4)
    show "exceeds (chunkFailures (self v) (chunk_key d)) (maxDownloadRetries cfg)"
      by (simp add: exceeds_def chunk_key_def)
  qed
  note d = chunk_list_failure [of cfg u]
  from a b c d show ?thesis by blast
qed

theorem failures_reported_if_hooked_witness:
  "fst (chunkatron defaultOptions) = Some (MissingSetting ''url'') \<and>
   (\<exists>w' evs.
      deliver one_chunk 0 (Failure ''Not Found'')
        \<lparr>self = \<lparr>chunks = [], concurrentDownloads = 1, chunkFailures = Map.empty\<rparr>,
         pending = [PostChunk [2, 1]], trace = [Ajax (PostChunk [2, 1])]\<rparr> = Some w' \<and>
      trace w' =
        [Ajax (PostChunk [2, 1]),
         Hook OnChunkError (Some (ErrorParam ''Not Found''))
           \<lparr>chunks = [Some [2, 1]], concurrentDownloads = 1,
            chunkFailures = [Some 2 \<mapsto> 1]\<rparr>,
         Hook OnChunkComplete None
           \<lparr>chunks = [Some [2, 1]], concurrentDownloads = 0,
            chunkFailures = [Some 2 \<mapsto> 1]\<rparr>] @ evs) \<and>
   downloadChunk silent
     \<lparr>self = \<lparr>chunks = [Some [5, 3]], concurrentDownloads = 0,
              chunkFailures = [Some 5 \<mapsto> 1]\<rparr>,
      pending = [], trace = []\<rparr> =
     (None,
      \<lparr>self = \<lparr>chunks = [], concurrentDownloads = 0, chunkFailures = [Some 5 \<mapsto> 1]\<rparr>,
       pending = [], trace = []\<rparr>) \<and>
   chunkatron from_url = (None, ajax (GetChunks ''/chunks'') initial) \<and>
   deliver from_url 0 NoChunks (ajax (GetChunks ''/chunks'') initial) =
     Some (initial\<lparr>trace := [Ajax (GetChunks ''/chunks''),
                               Uncaught (ChunksDownloadFailed ''/chunks'')]\<rparr>) \<and>
   (\<forall>j out. deliver from_url j out
      (initial\<lparr>trace := [Ajax (GetChunks ''/chunks''),
                          Uncaught (ChunksDownloadFailed ''/chunks'')]\<rparr>) = None)"
proof -
  let ?w = "\<lparr>self = \<lparr>chunks = [], concurrentDownloads = 1, chunkFailures = Map.empty\<rparr>,
         pending = [PostChunk [2, 1]], trace = [Ajax (PostChunk [2, 1])]\<rparr>"
  let ?v = "\<lparr>self = \<lparr>chunks = [Some [5, 3]], concurrentDownloads = 0,
              chunkFailures = [Some 5 \<mapsto> 1]\<rparr>,
      pending = [], trace = []\<rparr>"
  have 1: "fst (chunkatron defaultOptions) = Some (MissingSetting ''url'')"
    using failures_reported_if_hooked [where cfg = defaultOptions, THEN conjunct1]
    by (simp add: verifySettings_def defaultOptions_def)
  have h1: "onChunkError one_chunk = Function" "onChunkComplete one_chunk = Function"
    by (simp_all add: one_chunk_def all_hooks_def defaultOptions_def)
  have 2: "\<exists>w' evs. deliver one_chunk 0 (Failure ''Not Found'') ?w = Some w' \<and>
      trace w' =
        [Ajax (PostChunk [2, 1]),
         Hook OnChunkError (Some (ErrorParam ''Not Found''))
           \<lparr>chunks = [Some [2, 1]], concurrentDownloads = 1,
            chunkFailures = [Some 2 \<mapsto> 1]\<rparr>,
         Hook OnChunkComplete None
           \<lparr>chunks = [Some [2, 1]], concurrentDownloads = 0,
            chunkFailures = [Some 2 \<mapsto> 1]\<rparr>] @ evs"
    using failures_reported_if_hooked
      [where cfg = one_chunk and i = 0 and w = ?w and c = "[2, 1]" and err = "''Not Found''",
        THEN conjunct2, THEN conjunct1]
    by (simp add: h1 Let_def)
  have hs: "onChunkGiveUp silent = Null" "onFinished silent = Null"
    "concurrentDownloadsMax silent = 1" "maxDownloadRetries silent = 0"
    by (simp_all add: silent_def defaultOptions_def)
  have "downloadChunk silent ?v = downloadChunk silent (?v\<lparr>self := (self ?v)\<lparr>chunks := []\<rparr>\<rparr>)"
    using failures_reported_if_hooked
      [where cfg = silent and v = ?v and d = "[5, 3]" and rest = "[]" and n = 1,
        THEN conjunct2, THEN conjunct2, THEN conjunct1]
    by (simp add: hs)
  then have 3: "downloadChunk silent ?v =
     (None,
      \<lparr>self = \<lparr>chunks = [], concurrentDownloads = 0, chunkFailures = [Some 5 \<mapsto> 1]\<rparr>,
       pending = [], trace = []\<rparr>)"
    by (simp add: downloadChunk.simps hs callback_def)
  have hu: "verifySettings from_url = Inr ()" "settings_chunks from_url = None"
    "chunksUrl from_url = Some ''/chunks''"
    by (simp_all add: verifySettings_def from_url_def all_hooks_def defaultOptions_def)
  have 4: "chunkatron from_url = (None, ajax (GetChunks ''/chunks'') initial) \<and>
   deliver from_url 0 NoChunks (ajax (GetChunks ''/chunks'') initial) =
     Some (initial\<lparr>trace := [Ajax (GetChunks ''/chunks''),
                               Uncaught (ChunksDownloadFailed ''/chunks'')]\<rparr>) \<and>
   (\<forall>j out. deliver from_url j out
      (initial\<lparr>trace := [Ajax (GetChunks ''/chunks''),
                          Uncaught (ChunksDownloadFailed ''/chunks'')]\<rparr>) = None)"
    using failures_reported_if_hooked
      [where cfg = from_url and u = "''/chunks''", THEN conjunct2, THEN conjunct2, THEN conjunct2]
      hu
    by simp
  from 1 2 3 4 show ?thesis by simp
qed

end
